theory Spec2Isabelle
  imports Complex_Main
begin

section \<open>Mesh generator plugins of blender-gui: data model\<close>

text \<open>
  The plugins \<^verbatim>\<open>mesh_cylinder.py\<close>, \<^verbatim>\<open>mesh_disc.py\<close>, \<^verbatim>\<open>mesh_sphere.py\<close>,
  \<^verbatim>\<open>mesh_torus.py\<close>, \<^verbatim>\<open>mesh_tube.py\<close> and \<^verbatim>\<open>mesh_twist.py\<close> are Python 2 scripts.
  Python floats are idealised as \<^typ>\<open>real\<close>, Python ints are \<^typ>\<open>int\<close>.  Every exception
  the generators can raise is a value of \<open>error\<close>; a generator returns \<open>error + mesh\<close>.

  A face of the host mesh holds references to vertex objects of \<^verbatim>\<open>poly.verts\<close>; since
  the generators only ever append to \<^verbatim>\<open>poly.verts\<close>, a reference is modelled by the
  position of the vertex in that list.
\<close>

datatype error = ZeroDivisionError | IndexError | ValueError

type_synonym vertex = "real \<times> real \<times> real"

record face =
  f_v :: "nat list"
  f_smooth :: bool

record mesh =
  verts :: "vertex list"
  faces :: "face list"

subsection \<open>Python primitives\<close>

text \<open>\<^verbatim>\<open>xrange(n)\<close>: the integers \<open>0, ..., n-1\<close>; empty when \<open>n \<le> 0\<close>.\<close>

definition xrange :: "int \<Rightarrow> int list" where
  "xrange n = map int [0..<nat n]"

text \<open>\<^verbatim>\<open>a / b\<close> on floats raises \<^verbatim>\<open>ZeroDivisionError\<close> when \<open>b\<close> is zero.\<close>

definition fdiv :: "real \<Rightarrow> real \<Rightarrow> error + real" where
  "fdiv a b = (if b = 0 then Inl ZeroDivisionError else Inr (a / b))"

text \<open>Sequencing of computations that may raise.\<close>

definition ebind :: "error + 'a \<Rightarrow> ('a \<Rightarrow> error + 'b) \<Rightarrow> error + 'b" where
  "ebind m k = (case m of Inl e \<Rightarrow> Inl e | Inr x \<Rightarrow> k x)"

text \<open>A loop body run over a list; the first exception ends the loop.\<close>

fun mapE :: "('a \<Rightarrow> error + 'b) \<Rightarrow> 'a list \<Rightarrow> error + 'b list" where
  "mapE f [] = Inr []"
| "mapE f (x # xs) = ebind (f x) (\<lambda>y. ebind (mapE f xs) (\<lambda>ys. Inr (y # ys)))"

definition concatE :: "('a \<Rightarrow> error + 'b list) \<Rightarrow> 'a list \<Rightarrow> error + 'b list" where
  "concatE f xs = ebind (mapE f xs) (\<lambda>yss. Inr (concat yss))"

text \<open>
  \<^verbatim>\<open>poly.verts[k]\<close> on a list of \<open>n\<close> vertices: a negative \<open>k\<close> counts from the end, anything
  outside \<open>-n \<le> k < n\<close> raises \<^verbatim>\<open>IndexError\<close>.  The result is the position referenced.
\<close>

definition pyindex :: "nat \<Rightarrow> int \<Rightarrow> error + nat" where
  "pyindex n k =
     (if k < 0 then (if - int n \<le> k then Inr (nat (int n + k)) else Inl IndexError)
      else (if k < int n then Inr (nat k) else Inl IndexError))"

text \<open>
  \<^verbatim>\<open>f = NMesh.Face(); f.smooth = sm; f.v.append(poly.verts[k]) ...\<close> for the indices \<open>ks\<close>
  in turn, on a vertex list of length \<open>n\<close>.
\<close>

definition Face :: "nat \<Rightarrow> bool \<Rightarrow> int list \<Rightarrow> error + face" where
  "Face n sm ks = ebind (mapE (pyindex n) ks) (\<lambda>vs. Inr \<lparr>f_v = vs, f_smooth = sm\<rparr>)"

text \<open>
  The loop \<^verbatim>\<open>for _ in xrange(n): emit(a); a += d\<close> that every generator uses to lay
  out its rings: \<open>emit\<close> appends the vertices of one ring to \<^verbatim>\<open>poly.verts\<close>.
\<close>

fun ring_loop :: "nat \<Rightarrow> (real \<Rightarrow> vertex list) \<Rightarrow> real \<Rightarrow> real \<Rightarrow> vertex list" where
  "ring_loop 0 emit a d = []"
| "ring_loop (Suc n) emit a d = emit a @ ring_loop n emit (a + d) d"

text \<open>
  The inner loop that stitches two rings (starting at positions \<open>ring1\<close> and \<open>ring2\<close>) into
  quads:
  \<^verbatim>\<open>
  for j in xrange(Segments):
      f.v.append(poly.verts[ring1 + j])
      f.v.append(poly.verts[ring1 + (j+1) % Segments])
      f.v.append(poly.verts[ring2 + (j+1) % Segments])
      f.v.append(poly.verts[ring2 + j])
  \<close>
  The modulus is only evaluated inside the loop, where \<open>Segments \<ge> 1\<close>.
\<close>

definition quad_strip :: "nat \<Rightarrow> bool \<Rightarrow> int \<Rightarrow> int \<Rightarrow> int \<Rightarrow> error + face list" where
  "quad_strip n sm Segments ring1 ring2 =
     mapE (\<lambda>j. Face n sm [ring1 + j, ring1 + (j + 1) mod Segments,
                           ring2 + (j + 1) mod Segments, ring2 + j])
          (xrange Segments)"

section \<open>Cylinder (\<^verbatim>\<open>mesh_cylinder.py\<close>)\<close>

text \<open>
  \<^verbatim>\<open>MakeVertexRing(vertex_list, r, z)\<close> of \<^verbatim>\<open>Cylinder\<close> (and, with \<^verbatim>\<open>UDivisions\<close> for
  \<^verbatim>\<open>Segments\<close>, of \<^verbatim>\<open>Sphere\<close> and \<^verbatim>\<open>Sphere2\<close>): the vertices it appends.
\<close>

definition MakeVertexRing :: "int \<Rightarrow> real \<Rightarrow> real \<Rightarrow> vertex list" where
  "MakeVertexRing Segments r z =
     map (\<lambda>i. let phi = pi * 2 * of_int i / of_int Segments
               in (r * cos phi, r * sin phi, z))
         (xrange Segments)"

definition Cylinder_cap_faces :: "nat \<Rightarrow> bool \<Rightarrow> int \<Rightarrow> error + face list" where
  "Cylinder_cap_faces n sm Segments =
     concatE (\<lambda>j. let j0 = j; j1 = (j + 1) mod Segments in
                ebind (Face n sm [-2, j0, j1]) (\<lambda>f.
                ebind (Face n sm [-1, - (j0 + 3), - (j1 + 3)]) (\<lambda>g.
                Inr [f, g])))
             (xrange Segments)"

definition Cylinder :: "real \<Rightarrow> real \<Rightarrow> int \<Rightarrow> int \<Rightarrow> int \<Rightarrow> bool \<Rightarrow> error + mesh" where
  "Cylinder Radius Height Segments Divisions CapDivisions Smooth =
     ebind (fdiv Radius (of_int CapDivisions)) (\<lambda>dr.
     let vs1 = ring_loop (nat CapDivisions) (\<lambda>r. MakeVertexRing Segments r 0) dr dr in
     ebind (fdiv Height (of_int Divisions)) (\<lambda>dz.
     let vs2 = ring_loop (nat Divisions) (\<lambda>z. MakeVertexRing Segments Radius z) 0 dz;
         vs3 = ring_loop (nat CapDivisions) (\<lambda>r. MakeVertexRing Segments r Height)
                 Radius (- dr);
         vs = vs1 @ vs2 @ vs3;
         tvc = 2 * (CapDivisions - 1) + Divisions + 1 in
     ebind (concatE (\<lambda>i. quad_strip (length vs) Smooth Segments
                            (Segments * i) (Segments * (i + 1)))
                    (xrange tvc)) (\<lambda>skin.
     let vs' = vs @ [(0, 0, 0), (0, 0, Height)] in
     ebind (Cylinder_cap_faces (length vs') Smooth Segments) (\<lambda>caps.
     Inr \<lparr>verts = vs', faces = skin @ caps\<rparr>))))"

section \<open>Disc (\<^verbatim>\<open>mesh_disc.py\<close>)\<close>

text \<open>
  The inner vertex loop of \<^verbatim>\<open>Disc\<close>:
  \<^verbatim>\<open>for i in range(0,Segments): x = r*cos(alpha); y = r*sin(alpha); alpha += da; append\<close>.
\<close>

fun Disc_ring :: "nat \<Rightarrow> real \<Rightarrow> real \<Rightarrow> real \<Rightarrow> vertex list" where
  "Disc_ring 0 r alpha da = []"
| "Disc_ring (Suc n) r alpha da = (r * cos alpha, r * sin alpha, 0) # Disc_ring n r (alpha + da) da"

text \<open>\<^verbatim>\<open>Disc\<close> never sets \<^verbatim>\<open>f.smooth\<close>; a fresh host face is not smooth.\<close>

definition Disc :: "real \<Rightarrow> real \<Rightarrow> int \<Rightarrow> int \<Rightarrow> error + mesh" where
  "Disc InnerRadius OuterRadius Segments Subdivisions =
     ebind (fdiv (OuterRadius - InnerRadius) (of_int Subdivisions)) (\<lambda>dr.
     ebind (fdiv (pi * 2) (of_int Segments)) (\<lambda>da.
     let vs = ring_loop (nat (Subdivisions + 1)) (\<lambda>r. Disc_ring (nat Segments) r 0 da)
                InnerRadius dr in
     ebind (concatE (\<lambda>i. quad_strip (length vs) False Segments
                            (Segments * i) (Segments * (i + 1)))
                    (xrange Subdivisions)) (\<lambda>skin.
     Inr \<lparr>verts = vs, faces = skin\<rparr>)))"

section \<open>Sphere (\<^verbatim>\<open>mesh_sphere.py\<close>)\<close>

definition Sphere_fan_faces :: "nat \<Rightarrow> bool \<Rightarrow> int \<Rightarrow> error + face list" where
  "Sphere_fan_faces n sm UDivisions =
     concatE (\<lambda>k. let i = k; j = (k + 1) mod UDivisions in
                ebind (Face n sm [-1, - (i + 3), - (j + 3)]) (\<lambda>f.
                ebind (Face n sm [-2, i, j]) (\<lambda>g.
                Inr [f, g])))
             (xrange UDivisions)"

definition Sphere :: "real \<Rightarrow> int \<Rightarrow> int \<Rightarrow> bool \<Rightarrow> error + mesh" where
  "Sphere Radius UDivisions VDivisions Smooth =
     ebind (fdiv 180 (of_int VDivisions)) (\<lambda>da.
     let vs = ring_loop (nat (VDivisions - 1))
                (\<lambda>angle. MakeVertexRing UDivisions (Radius * sin (angle / 180 * pi))
                                                   (Radius * cos (angle / 180 * pi)))
                da da;
         vs' = vs @ [(0, 0, Radius), (0, 0, - Radius)] in
     ebind (concatE (\<lambda>i. quad_strip (length vs') Smooth UDivisions
                            (UDivisions * i) (UDivisions * (i + 1)))
                    (xrange (VDivisions - 2))) (\<lambda>skin.
     ebind (Sphere_fan_faces (length vs') Smooth UDivisions) (\<lambda>fans.
     Inr \<lparr>verts = vs', faces = skin @ fans\<rparr>)))"

text \<open>\<^verbatim>\<open>math.acos\<close> raises \<^verbatim>\<open>ValueError\<close> outside \<open>[-1, 1]\<close>.\<close>

definition acosE :: "real \<Rightarrow> error + real" where
  "acosE x = (if -1 \<le> x \<and> x \<le> 1 then Inr (arccos x) else Inl ValueError)"

text \<open>
  The first lines of \<^verbatim>\<open>Sphere2\<close>:
  \<^verbatim>\<open>norm_z = 1.0-(Clip/50.0); rang = 180*acos(norm_z)/pi\<close>: the clip latitude in degrees.
\<close>

definition Sphere2_rang :: "real \<Rightarrow> error + real" where
  "Sphere2_rang Clip =
     (let norm_z = 1 - Clip / 50 in
      ebind (acosE norm_z) (\<lambda>a. Inr (180 * a / pi)))"

text \<open>
  The ring loop of \<^verbatim>\<open>Sphere2\<close>, as the list of the polar angles (degrees) at which it
  calls \<^verbatim>\<open>MakeVertexRing\<close>: \<^verbatim>\<open>angle = rang; for _ in xrange(VDivisions-1): ...; angle -= da\<close>.
\<close>

fun Sphere2_angles :: "nat \<Rightarrow> real \<Rightarrow> real \<Rightarrow> real list" where
  "Sphere2_angles 0 angle da = []"
| "Sphere2_angles (Suc n) angle da = angle # Sphere2_angles n (angle - da) da"

definition Sphere2_top_faces :: "nat \<Rightarrow> bool \<Rightarrow> int \<Rightarrow> error + face list" where
  "Sphere2_top_faces n sm UDivisions =
     mapE (\<lambda>k. let i = k; j = (k + 1) mod UDivisions in
             Face n sm [-1, - (i + 2), - (j + 2)])
          (xrange UDivisions)"

definition Sphere2 :: "real \<Rightarrow> int \<Rightarrow> int \<Rightarrow> real \<Rightarrow> bool \<Rightarrow> bool \<Rightarrow> bool \<Rightarrow> error + mesh" where
  "Sphere2 Radius UDivisions VDivisions Clip CapBottom CapSymmetrical Smooth =
     ebind (Sphere2_rang Clip) (\<lambda>rang.
     let min_z = Radius * cos (rang / 180 * pi) in
     ebind (fdiv rang (of_int VDivisions)) (\<lambda>da.
     let vs = concat (map (\<lambda>angle. MakeVertexRing UDivisions
                                      (Radius * sin (angle / 180 * pi))
                                      (Radius * cos (angle / 180 * pi)))
                          (Sphere2_angles (nat (VDivisions - 1)) rang da));
         vs' = vs @ [(0, 0, Radius)] in
     ebind (concatE (\<lambda>i. quad_strip (length vs') Smooth UDivisions
                            (UDivisions * i) (UDivisions * (i + 1)))
                    (xrange (VDivisions - 2))) (\<lambda>skin.
     ebind (Sphere2_top_faces (length vs') Smooth UDivisions) (\<lambda>top.
     if CapBottom then
       (if CapSymmetrical then
          (let vs'' = vs' @ [(0, 0, min_z)] in
           ebind (mapE (\<lambda>i. Face (length vs'') Smooth [-1, i, (i + 1) mod UDivisions])
                       (xrange UDivisions)) (\<lambda>cap.
           Inr \<lparr>verts = vs'', faces = skin @ top @ cap\<rparr>))
        else
          ebind (mapE (\<lambda>i. Face (length vs') Smooth [0, i + 1, i + 2])
                      (xrange (UDivisions - 2))) (\<lambda>cap.
          Inr \<lparr>verts = vs', faces = skin @ top @ cap\<rparr>))
     else Inr \<lparr>verts = vs', faces = skin @ top\<rparr>))))"

section \<open>Torus (\<^verbatim>\<open>mesh_torus.py\<close>)\<close>

text \<open>
  \<^verbatim>\<open>Mathutils.RotationMatrix\<close> and \<^verbatim>\<open>Mathutils.VecMultMat\<close> belong to the host, not to
  this repository: the generators take \<open>rot\<close>, with \<open>rot angle p\<close> standing for
  \<^verbatim>\<open>VecMultMat(p, RotationMatrix(angle, 3, "z"))\<close>, as a parameter.
\<close>

type_synonym rotation = "real \<Rightarrow> vertex \<Rightarrow> vertex"

text \<open>\<^verbatim>\<open>MakeVertexRing(vertex_list, angle)\<close> of \<^verbatim>\<open>Torus\<close> and \<^verbatim>\<open>Torus2\<close>.\<close>

definition Torus_MakeVertexRing ::
    "rotation \<Rightarrow> real \<Rightarrow> real \<Rightarrow> int \<Rightarrow> real \<Rightarrow> real \<Rightarrow> vertex list" where
  "Torus_MakeVertexRing rot MajorRadius MinorRadius MinorDivisions StartMinorAngle angle =
     map (\<lambda>i. let phi = pi * 2 * of_int i / of_int MinorDivisions + StartMinorAngle;
                   x = MajorRadius + MinorRadius * cos phi;
                   y = 0;
                   z = MinorRadius * sin phi
               in rot angle (x, y, z))
         (xrange MinorDivisions)"

definition Torus ::
    "rotation \<Rightarrow> real \<Rightarrow> real \<Rightarrow> int \<Rightarrow> int \<Rightarrow> real \<Rightarrow> bool \<Rightarrow> error + mesh" where
  "Torus rot MajorRadius MinorRadius MajorDivisions MinorDivisions StartMinorAngle0 Smooth =
     (let StartMinorAngle = (StartMinorAngle0 * 2 * pi) / 180 in
      ebind (fdiv 360 (of_int MajorDivisions)) (\<lambda>da.
      let vs = ring_loop (nat MajorDivisions)
                 (Torus_MakeVertexRing rot MajorRadius MinorRadius MinorDivisions StartMinorAngle)
                 0 da in
      ebind (concatE (\<lambda>i. quad_strip (length vs) Smooth MinorDivisions
                             (MinorDivisions * i)
                             (MinorDivisions * ((i + 1) mod MajorDivisions)))
                     (xrange MajorDivisions)) (\<lambda>skin.
      Inr \<lparr>verts = vs, faces = skin\<rparr>)))"

definition Torus2 ::
    "rotation \<Rightarrow> real \<Rightarrow> real \<Rightarrow> int \<Rightarrow> int \<Rightarrow> real \<Rightarrow> bool \<Rightarrow> real \<Rightarrow> bool \<Rightarrow> real \<Rightarrow> bool
      \<Rightarrow> error + mesh" where
  "Torus2 rot MajorRadius MinorRadius MajorDivisions MinorDivisions
          StartMajorAngle0 CapStart EndMajorAngle0 CapEnd StartMinorAngle0 Smooth =
     (let StartMinorAngle = (StartMinorAngle0 * 2 * pi) / 180;
          StartMajorAngle = min StartMajorAngle0 EndMajorAngle0;
          EndMajorAngle = max StartMajorAngle0 EndMajorAngle0 in
      ebind (fdiv (EndMajorAngle - StartMajorAngle) (of_int MajorDivisions)) (\<lambda>da.
      let vs = ring_loop (nat (MajorDivisions + 1))
                 (Torus_MakeVertexRing rot MajorRadius MinorRadius MinorDivisions StartMinorAngle)
                 StartMajorAngle da;
          n = length vs in
      ebind (concatE (\<lambda>i. quad_strip n Smooth MinorDivisions
                             (MinorDivisions * i) (MinorDivisions * (i + 1)))
                     (xrange MajorDivisions)) (\<lambda>skin.
      ebind (if CapStart
             then mapE (\<lambda>i. Face n Smooth [0, i, i + 1]) (xrange (MinorDivisions - 1))
             else Inr []) (\<lambda>cap_start.
      ebind (if CapEnd
             then mapE (\<lambda>i. Face n Smooth [-1, - (i + 1), - (i + 2)])
                       (xrange (MinorDivisions - 1))
             else Inr []) (\<lambda>cap_end.
      Inr \<lparr>verts = vs, faces = skin @ cap_start @ cap_end\<rparr>)))))"

section \<open>Tube (\<^verbatim>\<open>mesh_tube.py\<close>)\<close>

text \<open>
  \<^verbatim>\<open>MakeVertexRectange()\<close>: the cross-section polyline, four loops of the shape
  \<^verbatim>\<open>for i in xrange(n): vertex_list.append((x,y,z)); z += dz\<close>.
\<close>

definition MakeVertexRectange ::
    "real \<Rightarrow> real \<Rightarrow> real \<Rightarrow> int \<Rightarrow> int \<Rightarrow> int \<Rightarrow> error + vertex list" where
  "MakeVertexRectange InnerRadius OuterRadius Height InnerDivisions OuterDivisions CapDivisions =
     (let y = 0 in
      ebind (fdiv Height (of_int InnerDivisions)) (\<lambda>dz.
      let l1 = ring_loop (nat InnerDivisions) (\<lambda>z. [(InnerRadius, y, z)]) 0 dz in
      ebind (fdiv (OuterRadius - InnerRadius) (of_int CapDivisions)) (\<lambda>dx.
      let l2 = ring_loop (nat CapDivisions) (\<lambda>x. [(x, y, Height)]) InnerRadius dx in
      ebind (fdiv Height (of_int OuterDivisions)) (\<lambda>dz.
      let l3 = ring_loop (nat OuterDivisions) (\<lambda>z. [(OuterRadius, y, z)]) Height (- dz);
          l4 = ring_loop (nat CapDivisions) (\<lambda>x. [(x, y, 0)]) OuterRadius (- dx) in
      Inr (l1 @ l2 @ l3 @ l4)))))"

definition RotateZvert :: "vertex \<Rightarrow> real \<Rightarrow> vertex" where
  "RotateZvert p angle =
     (case p of (x, y, z) \<Rightarrow>
        let c = cos angle; s = sin angle;
            X = c * x - s * y;
            Y = s * x + c * y
        in (X, Y, z))"

text \<open>\<^verbatim>\<open>AddYRotatedVertexes(polygon_vertex_list, vertex_list, angle)\<close>: the vertices appended.\<close>

definition AddYRotatedVertexes :: "vertex list \<Rightarrow> real \<Rightarrow> vertex list" where
  "AddYRotatedVertexes vertex_list angle =
     (let c = cos angle; s = sin angle in
      map (\<lambda>(x, y, z). let X = c * x - s * y; Y = s * x + c * y; Z = z in (X, Y, Z))
          vertex_list)"

definition deg2rad :: "real \<Rightarrow> real" where
  "deg2rad angle = pi * angle / 180"

definition Tube_cap_faces :: "nat \<Rightarrow> bool \<Rightarrow> int \<Rightarrow> error + face list" where
  "Tube_cap_faces n sm vps =
     concatE (\<lambda>i. let i0 = i; i1 = (i + 1) mod vps in
                ebind (Face n sm [-2, i0, i1]) (\<lambda>f0.
                ebind (Face n sm [-1, - (i0 + 3), - (i1 + 3)]) (\<lambda>f1.
                Inr [f0, f1])))
             (xrange vps)"

definition Tube ::
    "real \<Rightarrow> real \<Rightarrow> real \<Rightarrow> int \<Rightarrow> int \<Rightarrow> int \<Rightarrow> int \<Rightarrow> bool \<Rightarrow> real \<Rightarrow> real \<Rightarrow> bool
      \<Rightarrow> error + mesh" where
  "Tube InnerRadius OuterRadius Height InnerDivisions OuterDivisions CapDivisions Segments
        Smooth StartAngle EndAngle UseAngles =
     ebind (MakeVertexRectange InnerRadius OuterRadius Height
              InnerDivisions OuterDivisions CapDivisions) (\<lambda>vert.
     ebind (if UseAngles
            then ebind (fdiv (EndAngle - StartAngle) (of_int Segments)) (\<lambda>da.
                   Inr (da, StartAngle, Segments + 1))
            else ebind (fdiv 360 (of_int Segments)) (\<lambda>da.
                   Inr (da, 0, Segments))) (\<lambda>(da0, angle0, segments).
     let angle = deg2rad angle0;
         da = deg2rad da0;
         vs = ring_loop (nat segments) (AddYRotatedVertexes vert) angle da;
         vps = 2 * CapDivisions + InnerDivisions + OuterDivisions in
     ebind (concatE (\<lambda>i. let section0 = vps * i;
                              section1 = vps * ((i + 1) mod segments)
                          in quad_strip (length vs) Smooth vps section0 section1)
                    (xrange Segments)) (\<lambda>skin.
     if UseAngles then
       (let X = (InnerRadius + OuterRadius) / 2;
            Y = 0;
            Z = Height / 2;
            vs' = vs @ [RotateZvert (X, Y, Z) (deg2rad StartAngle),
                        RotateZvert (X, Y, Z) (deg2rad EndAngle)] in
        ebind (Tube_cap_faces (length vs') Smooth vps) (\<lambda>caps.
        Inr \<lparr>verts = vs', faces = skin @ caps\<rparr>))
     else Inr \<lparr>verts = vs, faces = skin\<rparr>)))"

section \<open>Twist (\<^verbatim>\<open>mesh_twist.py\<close>)\<close>

text \<open>
  The bounding box of the acquired mesh, kept by the plugin in the globals
  \<^verbatim>\<open>min_x, max_x, min_y, max_y, min_z, max_z\<close> (set by \<^verbatim>\<open>get_selected\<close>).
\<close>

record bbox =
  min_x :: real
  max_x :: real
  min_y :: real
  max_y :: real
  min_z :: real
  max_z :: real

definition rot_x :: "vertex \<Rightarrow> real \<Rightarrow> vertex" where
  "rot_x p angle =
     (case p of (x, y, z) \<Rightarrow>
        let c = cos angle; s = sin angle in (x, y * c - z * s, y * s + z * c))"

definition rot_y :: "vertex \<Rightarrow> real \<Rightarrow> vertex" where
  "rot_y p angle =
     (case p of (x, y, z) \<Rightarrow>
        let c = cos angle; s = sin angle in (x * c - z * s, y, x * s + z * c))"

definition rot_z :: "vertex \<Rightarrow> real \<Rightarrow> vertex" where
  "rot_z p angle =
     (case p of (x, y, z) \<Rightarrow>
        let c = cos angle; s = sin angle in (x * c - y * s, x * s + y * s, z))"

text \<open>
  The body of \<^verbatim>\<open>for index, v in enumerate(mesh.verts)\<close> for one vertex, given its saved
  position \<open>p = vertex_list[index]\<close>; \<open>coord\<close> selects the component along the axis,
  \<open>lo\<close> is the box minimum, \<open>d\<close> the extent, \<open>rot\<close> the rotation of the branch.
  The result is the new value of \<^verbatim>\<open>v.co\<close>.
\<close>

definition twist_vertex ::
    "(vertex \<Rightarrow> real) \<Rightarrow> (vertex \<Rightarrow> real \<Rightarrow> vertex) \<Rightarrow> real \<Rightarrow> real \<Rightarrow> real \<Rightarrow> real \<Rightarrow> real \<Rightarrow> real
      \<Rightarrow> vertex \<Rightarrow> error + vertex" where
  "twist_vertex coord rot lo d rd Angle StartFrom EndAt p =
     ebind (fdiv (coord p - lo) d) (\<lambda>t.
     if StartFrom \<le> t \<and> t \<le> EndAt
     then ebind (fdiv (Angle * (t - StartFrom)) rd) (\<lambda>ang. Inr (rot p ang))
     else Inr p)"

text \<open>
  The loop over \<^verbatim>\<open>enumerate(mesh.verts)\<close>: \<open>vertex_list\<close> is the saved baseline, the last
  argument the current coordinates of the mesh vertices from position \<open>index\<close> on.  The
  loop writes \<^verbatim>\<open>v.co\<close> in place, so an exception leaves the vertices already visited
  rewritten and the others as they were.  The result pairs the exception, if any, with
  the coordinates after the loop.
\<close>

fun twist_loop ::
    "(vertex \<Rightarrow> error + vertex) \<Rightarrow> vertex list \<Rightarrow> nat \<Rightarrow> vertex list \<Rightarrow> error option \<times> vertex list"
where
  "twist_loop body vertex_list index [] = (None, [])"
| "twist_loop body vertex_list index (v # vs) =
     (if index < length vertex_list
      then (case body (vertex_list ! index) of
              Inl e \<Rightarrow> (Some e, v # vs)
            | Inr c \<Rightarrow> (case twist_loop body vertex_list (Suc index) vs of
                          (r, vs') \<Rightarrow> (r, c # vs')))
      else (Some IndexError, v # vs))"

text \<open>
  \<^verbatim>\<open>twist_mesh(vertex_list, mesh, Axis, Angle, StartFrom, EndAt)\<close>, with the bounding box
  globals as \<open>bb\<close> and the coordinates of \<^verbatim>\<open>mesh.verts\<close> as \<open>mesh_verts\<close>.  It returns what
  the call returns or raises, and the coordinates of \<^verbatim>\<open>mesh.verts\<close> afterwards.
\<close>

definition twist_mesh ::
    "bbox \<Rightarrow> vertex list \<Rightarrow> vertex list \<Rightarrow> string \<Rightarrow> real \<Rightarrow> real \<Rightarrow> real
      \<Rightarrow> (error + bool) \<times> vertex list" where
  "twist_mesh bb vertex_list mesh_verts Axis Angle0 StartFrom0 EndAt0 =
     (let StartFrom = min StartFrom0 EndAt0 / 100;
          EndAt = max StartFrom0 EndAt0 / 100;
          Angle = pi * Angle0 / 180;
          finish = (\<lambda>(r, vs). (case r of None \<Rightarrow> Inr True | Some e \<Rightarrow> Inl e, vs)) in
      if Axis = ''x'' then
        (let d = max_x bb - min_x bb; rd = EndAt - StartFrom in
         finish (twist_loop (twist_vertex fst rot_x (min_x bb) d rd Angle StartFrom EndAt)
                   vertex_list 0 mesh_verts))
      else if Axis = ''y'' then
        (let d = max_y bb - min_y bb; rd = EndAt - StartFrom in
         finish (twist_loop (twist_vertex (\<lambda>p. fst (snd p)) rot_y (min_y bb) d rd
                               Angle StartFrom EndAt)
                   vertex_list 0 mesh_verts))
      else if Axis = ''z'' then
        (let d = max_z bb - min_z bb; rd = EndAt - StartFrom in
         finish (twist_loop (twist_vertex (\<lambda>p. snd (snd p)) rot_z (min_z bb) d rd
                               Angle StartFrom EndAt)
                   vertex_list 0 mesh_verts))
      else (Inr False, mesh_verts))"

section \<open>Notions used in the statements\<close>

text \<open>The position that \<^verbatim>\<open>poly.verts[k]\<close> refers to when \<open>k\<close> is in range.\<close>

definition vpos :: "nat \<Rightarrow> int \<Rightarrow> nat" where
  "vpos n k = (if k < 0 then nat (int n + k) else nat k)"

text \<open>
  The faces the loops build, once every index is known to be in range: \<open>quad sm S r1 r2 j\<close>
  is the quad of step \<open>j\<close> of the stitching loop between the rings that start at the
  positions \<open>r1\<close> and \<open>r2\<close>, \<open>tri sm a b c\<close> a triangle on three positions.
\<close>

definition quad :: "bool \<Rightarrow> int \<Rightarrow> int \<Rightarrow> int \<Rightarrow> int \<Rightarrow> face" where
  "quad sm S r1 r2 j =
     \<lparr>f_v = [nat (r1 + j), nat (r1 + (j + 1) mod S), nat (r2 + (j + 1) mod S), nat (r2 + j)],
      f_smooth = sm\<rparr>"

definition tri :: "bool \<Rightarrow> nat \<Rightarrow> nat \<Rightarrow> nat \<Rightarrow> face" where
  "tri sm a b c = \<lparr>f_v = [a, b, c], f_smooth = sm\<rparr>"

text \<open>
  The two triangles that one round of a cap loop appends: one around \<^verbatim>\<open>poly.verts[-2]\<close>
  on the first ring, one around \<^verbatim>\<open>poly.verts[-1]\<close> on the last ring.
\<close>

definition fan_pair :: "nat \<Rightarrow> bool \<Rightarrow> int \<Rightarrow> int \<Rightarrow> face list" where
  "fan_pair n sm S j =
     [tri sm (vpos n (-2)) (vpos n j) (vpos n ((j + 1) mod S)),
      tri sm (vpos n (-1)) (vpos n (- (j + 3))) (vpos n (- ((j + 1) mod S + 3)))]"

text \<open>What a build hands to the host: nothing when it raised.\<close>

definition vertex_count :: "error + mesh \<Rightarrow> nat option" where
  "vertex_count r = (case r of Inl e \<Rightarrow> None | Inr m \<Rightarrow> Some (length (verts m)))"

definition face_count :: "error + mesh \<Rightarrow> nat option" where
  "face_count r = (case r of Inl e \<Rightarrow> None | Inr m \<Rightarrow> Some (length (faces m)))"

text \<open>
  The extent \<open>d\<close> of the bounding box along the axis and the fraction \<open>t\<close> that
  \<^verbatim>\<open>twist_mesh\<close> computes for a saved vertex position.
\<close>

definition axis_extent :: "bbox \<Rightarrow> string \<Rightarrow> real" where
  "axis_extent bb Axis =
     (if Axis = ''x'' then max_x bb - min_x bb
      else if Axis = ''y'' then max_y bb - min_y bb
      else max_z bb - min_z bb)"

definition axis_fraction :: "bbox \<Rightarrow> string \<Rightarrow> vertex \<Rightarrow> real" where
  "axis_fraction bb Axis p =
     (if Axis = ''x'' then (fst p - min_x bb) / (max_x bb - min_x bb)
      else if Axis = ''y'' then (fst (snd p) - min_y bb) / (max_y bb - min_y bb)
      else (snd (snd p) - min_z bb) / (max_z bb - min_z bb))"

text \<open>The two triangles of one round of the pole loop of \<^verbatim>\<open>Sphere\<close>.\<close>

definition Sphere_fan_pair :: "nat \<Rightarrow> bool \<Rightarrow> int \<Rightarrow> int \<Rightarrow> face list" where
  "Sphere_fan_pair n sm U k =
     [tri sm (vpos n (-1)) (vpos n (- (k + 3))) (vpos n (- ((k + 1) mod U + 3))),
      tri sm (vpos n (-2)) (vpos n k) (vpos n ((k + 1) mod U))]"

text \<open>The faces of the two cap loops of \<^verbatim>\<open>Torus2\<close>.\<close>

definition Torus2_cap_start :: "nat \<Rightarrow> bool \<Rightarrow> int \<Rightarrow> face list" where
  "Torus2_cap_start n sm M =
     map (\<lambda>i. tri sm (vpos n 0) (vpos n i) (vpos n (i + 1))) (xrange (M - 1))"

definition Torus2_cap_end :: "nat \<Rightarrow> bool \<Rightarrow> int \<Rightarrow> face list" where
  "Torus2_cap_end n sm M =
     map (\<lambda>i. tri sm (vpos n (-1)) (vpos n (- (i + 1))) (vpos n (- (i + 2)))) (xrange (M - 1))"

text \<open>A face is degenerate when it references some vertex more than once.\<close>

definition degenerate :: "face \<Rightarrow> bool" where
  "degenerate f = (\<not> distinct (f_v f))"

text \<open>The first vertex of the mesh a build hands to the host.\<close>

definition first_vertex :: "error + mesh \<Rightarrow> vertex option" where
  "first_vertex r =
     (case r of Inl e \<Rightarrow> None
      | Inr m \<Rightarrow> (case verts m of [] \<Rightarrow> None | p # ps \<Rightarrow> Some p))"

text \<open>The set of positions of the vertices a build hands to the host.\<close>

definition vertex_set :: "error + mesh \<Rightarrow> vertex set option" where
  "vertex_set r = (case r of Inl e \<Rightarrow> None | Inr m \<Rightarrow> Some (set (verts m)))"

section \<open>Basic facts about the primitives\<close>

lemma ebind_Inr [simp]: "ebind (Inr x) k = k x" by (simp add: ebind_def)
lemma ebind_Inl [simp]: "ebind (Inl e) k = Inl e" by (simp add: ebind_def)

lemma length_xrange [simp]: "length (xrange n) = nat n" by (simp add: xrange_def)

lemma set_xrange: "set (xrange n) = {k. 0 \<le> k \<and> k < n}"
  apply (auto simp: xrange_def)
  subgoal for k by (rule image_eqI [of _ _ "nat k"]) auto
  done

lemma mapE_Inr: "(\<And>x. x \<in> set xs \<Longrightarrow> f x = Inr (g x)) \<Longrightarrow> mapE f xs = Inr (map g xs)"
  by (induction xs) simp_all

lemma concatE_Inr: "(\<And>x. x \<in> set xs \<Longrightarrow> f x = Inr (g x)) \<Longrightarrow> concatE f xs = Inr (concat (map g xs))"
  by (simp add: concatE_def mapE_Inr [of xs f g])

lemma pyindex_pos: "0 \<le> k \<Longrightarrow> k < int n \<Longrightarrow> pyindex n k = Inr (nat k)"
  by (simp add: pyindex_def)

lemma length_ring_loop: "(\<And>a. length (emit a) = m) \<Longrightarrow> length (ring_loop n emit a d) = n * m"
  by (induction n arbitrary: a) simp_all

lemma length_MakeVertexRing [simp]: "length (MakeVertexRing S r z) = nat S"
  by (simp add: MakeVertexRing_def)

lemma Face_pos:
  "(\<And>k. k \<in> set ks \<Longrightarrow> 0 \<le> k \<and> k < int n) \<Longrightarrow>
   Face n sm ks = Inr \<lparr>f_v = map nat ks, f_smooth = sm\<rparr>"
  by (simp add: Face_def mapE_Inr [of ks "pyindex n" nat] pyindex_pos)

lemma quad_strip_Inr:
  assumes "0 \<le> r1" "0 \<le> r2" "r1 + S \<le> int n" "r2 + S \<le> int n"
  shows "quad_strip n sm S r1 r2 = Inr (map (quad sm S r1 r2) (xrange S))"
  unfolding quad_strip_def
proof (rule mapE_Inr)
  fix j assume "j \<in> set (xrange S)"
  then have j: "0 \<le> j" "j < S" by (auto simp: set_xrange)
  then have m: "0 \<le> (j + 1) mod S" "(j + 1) mod S < S" by simp_all
  have b: "0 \<le> k \<and> k < int n"
    if "k \<in> set [r1 + j, r1 + (j + 1) mod S, r2 + (j + 1) mod S, r2 + j]" for k
  proof -
    from that consider "k = r1 + j" | "k = r1 + (j + 1) mod S"
      | "k = r2 + (j + 1) mod S" | "k = r2 + j"
      by auto
    then show ?thesis
    proof cases
      case 1 then show ?thesis using assms j by linarith
    next
      case 2 then show ?thesis using assms m by linarith
    next
      case 3 then show ?thesis using assms m by linarith
    next
      case 4 then show ?thesis using assms j by linarith
    qed
  qed
  show "Face n sm [r1 + j, r1 + (j + 1) mod S, r2 + (j + 1) mod S, r2 + j]
               = Inr (quad sm S r1 r2 j)"
    unfolding quad_def
    by (rule trans [OF Face_pos [of "[r1 + j, r1 + (j + 1) mod S, r2 + (j + 1) mod S, r2 + j]" n sm]])
       (use b in blast, simp)
qed

lemma skin_Inr:
  assumes "\<And>i. 0 \<le> i \<Longrightarrow> i < T \<Longrightarrow> 0 \<le> r1 i \<and> 0 \<le> r2 i \<and> r1 i + S \<le> int n \<and> r2 i + S \<le> int n"
  shows "concatE (\<lambda>i. quad_strip n sm S (r1 i) (r2 i)) (xrange T)
           = Inr (concat (map (\<lambda>i. map (quad sm S (r1 i) (r2 i)) (xrange S)) (xrange T)))"
  by (rule concatE_Inr) (simp add: set_xrange quad_strip_Inr assms)

lemma length_concat_const:
  "(\<And>x. x \<in> set xs \<Longrightarrow> length (f x) = m) \<Longrightarrow> length (concat (map f xs)) = length xs * m"
  by (induction xs) simp_all

lemma ring_bounds:
  fixes S :: int
  assumes "0 \<le> i" "i < T" "0 \<le> S"
  shows "0 \<le> S * i" "S * i + S \<le> S * T"
proof -
  show "0 \<le> S * i" using assms by simp
  have "S * (i + 1) \<le> S * T" using assms by (intro mult_left_mono) auto
  then show "S * i + S \<le> S * T" by (simp add: algebra_simps)
qed


lemma pyindex_vpos: "- int n \<le> k \<Longrightarrow> k < int n \<Longrightarrow> pyindex n k = Inr (vpos n k)"
  by (simp add: pyindex_def vpos_def)

lemma Face_Inr:
  "(\<And>k. k \<in> set ks \<Longrightarrow> - int n \<le> k \<and> k < int n) \<Longrightarrow>
   Face n sm ks = Inr \<lparr>f_v = map (vpos n) ks, f_smooth = sm\<rparr>"
  by (simp add: Face_def mapE_Inr [of ks "pyindex n" "vpos n"] pyindex_vpos)

lemma Face3_Inr:
  assumes "- int n \<le> a" "a < int n" "- int n \<le> b" "b < int n" "- int n \<le> c" "c < int n"
  shows "Face n sm [a, b, c] = Inr \<lparr>f_v = [vpos n a, vpos n b, vpos n c], f_smooth = sm\<rparr>"
  by (rule trans [OF Face_Inr [of "[a, b, c]" n sm]]) (use assms in auto)

lemma Face3_tri:
  assumes "- int n \<le> a" "a < int n" "- int n \<le> b" "b < int n" "- int n \<le> c" "c < int n"
  shows "Face n sm [a, b, c] = Inr (tri sm (vpos n a) (vpos n b) (vpos n c))"
  unfolding tri_def using assms by (rule Face3_Inr)

lemma fan_pair_Inr:
  assumes S: "S + 2 \<le> int n"
  shows "concatE (\<lambda>j. let j0 = j; j1 = (j + 1) mod S in
                ebind (Face n sm [-2, j0, j1]) (\<lambda>f.
                ebind (Face n sm [-1, - (j0 + 3), - (j1 + 3)]) (\<lambda>g.
                Inr [f, g])))
             (xrange S)
     = Inr (concat (map (fan_pair n sm S) (xrange S)))"
proof (rule concatE_Inr)
  fix j assume "j \<in> set (xrange S)"
  then have j: "0 \<le> j" "j < S" by (auto simp: set_xrange)
  then have m: "0 \<le> (j + 1) mod S" "(j + 1) mod S < S" by simp_all
  have 1: "Face n sm [-2, j, (j + 1) mod S]
            = Inr (tri sm (vpos n (-2)) (vpos n j) (vpos n ((j + 1) mod S)))"
    by (rule Face3_tri) (use S j m in linarith)+
  have 2: "Face n sm [-1, - (j + 3), - ((j + 1) mod S + 3)]
            = Inr (tri sm (vpos n (-1)) (vpos n (- (j + 3))) (vpos n (- ((j + 1) mod S + 3))))"
    by (rule Face3_tri) (use S j m in linarith)+
  show "(let j0 = j; j1 = (j + 1) mod S in
                ebind (Face n sm [-2, j0, j1]) (\<lambda>f.
                ebind (Face n sm [-1, - (j0 + 3), - (j1 + 3)]) (\<lambda>g.
                Inr [f, g])))
       = Inr (fan_pair n sm S j)"
    unfolding Let_def 1 2 fan_pair_def by simp
qed

lemma Cylinder_cap_faces_Inr:
  "S + 2 \<le> int n \<Longrightarrow> Cylinder_cap_faces n sm S = Inr (concat (map (fan_pair n sm S) (xrange S)))"
  unfolding Cylinder_cap_faces_def by (rule fan_pair_Inr)

lemma length_quads: "length (concat (map (\<lambda>i. map (g i) (xrange S)) (xrange T))) = nat T * nat S"
  by (simp add: length_concat_const [where m = "nat S"])

lemma length_fan_pairs: "length (concat (map (fan_pair n sm S) (xrange T))) = nat T * 2"
  by (simp add: length_concat_const [where m = 2] fan_pair_def)

lemma Cylinder_Inr:
  assumes S: "1 \<le> S" and D: "1 \<le> D" and C: "1 \<le> C"
  shows "\<exists>vs. length vs = nat (S * (2 * C + D)) \<and>
      Cylinder R H S D C sm =
        Inr \<lparr>verts = vs @ [(0, 0, 0), (0, 0, H)],
             faces = concat (map (\<lambda>i. map (quad sm S (S * i) (S * (i + 1))) (xrange S))
                              (xrange (2 * C + D - 1)))
                     @ concat (map (fan_pair (nat (S * (2 * C + D)) + 2) sm S) (xrange S))\<rparr>"
proof -
  define dr where "dr = R / of_int C"
  define dz where "dz = H / of_int D"
  define vs where "vs = ring_loop (nat C) (\<lambda>r. MakeVertexRing S r 0) dr dr
       @ ring_loop (nat D) (\<lambda>z. MakeVertexRing S R z) 0 dz
       @ ring_loop (nat C) (\<lambda>r. MakeVertexRing S r H) R (- dr)"
  have len: "length vs = nat (S * (2 * C + D))"
  proof -
    have "length vs = nat C * nat S + nat D * nat S + nat C * nat S"
      unfolding vs_def by (simp add: length_ring_loop [where m = "nat S"])
    also have "\<dots> = nat (S * (2 * C + D))"
      using S D C by (simp add: nat_mult_distrib nat_add_distrib algebra_simps)
    finally show ?thesis .
  qed
  have n: "int (length vs) = S * (2 * C + D)" using len S D C by simp
  have skin: "concatE (\<lambda>i. quad_strip (length vs) sm S (S * i) (S * (i + 1))) (xrange (2 * C + D - 1))
      = Inr (concat (map (\<lambda>i. map (quad sm S (S * i) (S * (i + 1))) (xrange S)) (xrange (2 * C + D - 1))))"
  proof (rule skin_Inr)
    fix i :: int assume i: "0 \<le> i" "i < 2 * C + D - 1"
    have a: "0 \<le> S * i" "S * i + S \<le> S * (2 * C + D - 1)"
      using ring_bounds [OF i, of S] S by simp_all
    have b: "S * (2 * C + D - 1) + S = S * (2 * C + D)" by (simp add: algebra_simps)
    have c: "S * (i + 1) = S * i + S" by (simp add: algebra_simps)
    show "0 \<le> S * i \<and> 0 \<le> S * (i + 1) \<and> S * i + S \<le> int (length vs)
           \<and> S * (i + 1) + S \<le> int (length vs)"
      unfolding n c using a b S by linarith
  qed
  have "S \<le> S * (2 * C + D)" using S D C by (simp add: mult_le_cancel_left1)
  then have caps: "Cylinder_cap_faces (length (vs @ [(0, 0, 0), (0, 0, H)])) sm S
      = Inr (concat (map (fan_pair (nat (S * (2 * C + D)) + 2) sm S) (xrange S)))"
    using Cylinder_cap_faces_Inr [of S "length vs + 2" sm] n len by simp
  have tvc: "2 * (C - 1) + D + 1 = 2 * C + D - 1" by simp
  have "Cylinder R H S D C sm =
        Inr \<lparr>verts = vs @ [(0, 0, 0), (0, 0, H)],
             faces = concat (map (\<lambda>i. map (quad sm S (S * i) (S * (i + 1))) (xrange S))
                              (xrange (2 * C + D - 1)))
                     @ concat (map (fan_pair (nat (S * (2 * C + D)) + 2) sm S) (xrange S))\<rparr>"
    unfolding Cylinder_def Let_def tvc
    using C D by (simp add: fdiv_def dr_def [symmetric] dz_def [symmetric] vs_def [symmetric] skin caps del: append_assoc length_append)
  with len show ?thesis by blast
qed

section \<open>Cylinder: vertex and face counts\<close>

text \<open>
  C6 asks for \<open>S \<times> (2C + O)\<close> vertices.  \<^verbatim>\<open>Cylinder\<close> appends the two apex vertices
  \<^verbatim>\<open>Vert(0,0,0)\<close> and \<^verbatim>\<open>Vert(0,0,Height)\<close> after the rings, so the build with
  \<open>S = 4\<close>, \<open>O = 1\<close>, \<open>C = 1\<close> has 14 vertices, not 12.
\<close>

theorem Cylinder_vertex_count_counterexample:
  "vertex_count (Cylinder 1 3 4 1 1 True) = Some 14 \<and>
   vertex_count (Cylinder 1 3 4 1 1 True) \<noteq> Some (nat (4 * (2 * 1 + 1)))"
proof -
  obtain vs where "length vs = nat (4 * (2 * 1 + 1))"
    and "Cylinder 1 3 4 1 1 True =
        Inr \<lparr>verts = vs @ [(0, 0, 0), (0, 0, 3)],
             faces = concat (map (\<lambda>i. map (quad True 4 (4 * i) (4 * (i + 1))) (xrange 4))
                              (xrange (2 * 1 + 1 - 1)))
                     @ concat (map (fan_pair (nat (4 * (2 * 1 + 1)) + 2) True 4) (xrange 4))\<rparr>"
    using Cylinder_Inr [of 4 1 1 1 3 True] by auto
  then show ?thesis by (simp add: vertex_count_def)
qed

text \<open>
  C6, amended: for \<open>S \<ge> 3\<close>, \<open>O \<ge> 1\<close>, \<open>C \<ge> 1\<close> the cylinder build succeeds; it emits
  \<open>S \<times> (2C + O)\<close> ring vertices followed by the two apex vertices, that is
  \<open>S \<times> (2C + O) + 2\<close> vertices, and \<open>S \<times> (2C + O - 1)\<close> quads plus \<open>2S\<close> triangles.
\<close>

theorem Cylinder_counts:
  assumes "3 \<le> S" "1 \<le> D" "1 \<le> C"
  shows "\<exists>m. Cylinder R H S D C sm = Inr m
     \<and> length (verts m) = nat (S * (2 * C + D)) + 2
     \<and> drop (nat (S * (2 * C + D))) (verts m) = [(0, 0, 0), (0, 0, H)]
     \<and> length (faces m) = nat (S * (2 * C + D - 1)) + nat (2 * S)
     \<and> length (filter (\<lambda>f. length (f_v f) = 4) (faces m)) = nat (S * (2 * C + D - 1))
     \<and> length (filter (\<lambda>f. length (f_v f) = 3) (faces m)) = nat (2 * S)"
proof -
  define skin where "skin = concat (map (\<lambda>i. map (quad sm S (S * i) (S * (i + 1))) (xrange S))
                              (xrange (2 * C + D - 1)))"
  define caps where "caps = concat (map (fan_pair (nat (S * (2 * C + D)) + 2) sm S) (xrange S))"
  from assms have "1 \<le> S" by simp
  from Cylinder_Inr [OF this assms(2,3), of R H sm]
  obtain vs where vs: "length vs = nat (S * (2 * C + D))"
    and m: "Cylinder R H S D C sm = Inr \<lparr>verts = vs @ [(0, 0, 0), (0, 0, H)], faces = skin @ caps\<rparr>"
    unfolding skin_def caps_def by blast
  have ls: "length skin = nat (S * (2 * C + D - 1))"
    using assms unfolding skin_def length_quads by (simp add: nat_mult_distrib mult.commute)
  have lc: "length caps = nat (2 * S)"
    using assms unfolding caps_def length_fan_pairs by simp
  have s4: "\<forall>f \<in> set skin. length (f_v f) = 4"
    unfolding skin_def by (auto simp: quad_def)
  have c3: "\<forall>f \<in> set caps. length (f_v f) = 3"
    unfolding caps_def by (auto simp: fan_pair_def tri_def)
  have f4: "filter (\<lambda>f. length (f_v f) = 4) skin = skin"
    "filter (\<lambda>f. length (f_v f) = 4) caps = []"
    using s4 c3 by (simp_all add: filter_empty_conv)
  have f3: "filter (\<lambda>f. length (f_v f) = 3) skin = []"
    "filter (\<lambda>f. length (f_v f) = 3) caps = caps"
    using s4 c3 by (simp_all add: filter_empty_conv)
  show ?thesis
    unfolding m using vs ls lc by (simp add: f4 f3)
qed

theorem Cylinder_counts_witness:
  "(3::int) \<le> 4 \<and> (1::int) \<le> 1 \<and>
   (\<exists>m. Cylinder 1 3 4 1 1 True = Inr m
      \<and> length (verts m) = 14
      \<and> drop 12 (verts m) = [(0, 0, 0), (0, 0, 3)]
      \<and> length (faces m) = 16
      \<and> length (filter (\<lambda>f. length (f_v f) = 4) (faces m)) = 8
      \<and> length (filter (\<lambda>f. length (f_v f) = 3) (faces m)) = 8)"
  using Cylinder_counts [of 4 1 1 1 3 True] by simp

section \<open>Twist\<close>

lemma twist_loop_raises:
  assumes "\<And>p. body p = Inr p \<or> body p = Inl e"
    and "index + length vs \<le> length vl"
    and "\<exists>i. index \<le> i \<and> i < index + length vs \<and> body (vl ! i) = Inl e"
  shows "fst (twist_loop body vl index vs) = Some e"
  using assms(2,3)
proof (induction vs arbitrary: index)
  case Nil
  then show ?case by auto
next
  case (Cons v vs)
  from Cons.prems(1) have lt: "index < length vl" by simp
  show ?case
  proof (cases "body (vl ! index)")
    case (Inl e')
    with assms(1) [of "vl ! index"] have "e' = e" by auto
    with Inl lt show ?thesis by simp
  next
    case (Inr c)
    from Cons.prems(2) obtain i where i: "index \<le> i" "i < index + length (v # vs)"
      "body (vl ! i) = Inl e" by blast
    with Inr have "i \<noteq> index" by auto
    with i have "\<exists>i. Suc index \<le> i \<and> i < Suc index + length vs \<and> body (vl ! i) = Inl e"
      by (intro exI [of _ i]) auto
    moreover have "Suc index + length vs \<le> length vl" using Cons.prems(1) by simp
    ultimately have "fst (twist_loop body vl (Suc index) vs) = Some e"
      by (rule Cons.IH [rotated])
    with Inr lt show ?thesis by (simp add: split_beta)
  qed
qed

lemma twist_vertex_empty_range:
  "d \<noteq> 0 \<Longrightarrow> twist_vertex coord rot lo d 0 Angle s s p =
     (if (coord p - lo) / d = s then Inl ZeroDivisionError else Inr p)"
  by (auto simp: twist_vertex_def fdiv_def)

lemma twist_loop_Inr:
  "index + length vs \<le> length vl \<Longrightarrow>
   twist_loop Inr vl index vs = (None, take (length vs) (drop index vl))"
proof (induction vs arbitrary: index)
  case Nil
  then show ?case by simp
next
  case (Cons v vs)
  then have lt: "index < length vl" and "Suc index + length vs \<le> length vl" by simp_all
  then have "twist_loop Inr vl (Suc index) vs = (None, take (length vs) (drop (Suc index) vl))"
    using Cons.IH by blast
  with lt show ?case
    by (simp add: Cons_nth_drop_Suc [symmetric])
qed

lemma twist_loop_identity:
  assumes "\<And>p. body p = Inr p" "length vl = length vs"
  shows "twist_loop body vl 0 vs = (None, vl)"
proof -
  from assms(1) have "body = Inr" by (simp add: fun_eq_iff)
  with twist_loop_Inr [of 0 vs vl] assms(2) show ?thesis by simp
qed

lemma rot_x_0: "rot_x p 0 = p" by (cases p) (simp add: rot_x_def)
lemma rot_y_0: "rot_y p 0 = p" by (cases p) (simp add: rot_y_def)


text \<open>
  On the axes X and Y a twist by angle 0 over a non-empty range and a non-flat box writes
  the saved positions back: \<^verbatim>\<open>rot_x\<close> and \<^verbatim>\<open>rot_y\<close> are the identity at angle 0.
\<close>

lemma twist_zero_angle_xy:
  assumes "Axis = ''x'' \<or> Axis = ''y''" "axis_extent bb Axis \<noteq> 0"
    "length vertex_list = length mesh_verts" "a \<noteq> b"
  shows "twist_mesh bb vertex_list mesh_verts Axis 0 a b = (Inr True, vertex_list)"
proof -
  have rd: "max a b / 100 - min a b / 100 \<noteq> 0" using assms(4) by (auto simp: max_def min_def)
  have loop: "twist_loop (twist_vertex coord rot lo d (max a b / 100 - min a b / 100) 0 s e)
                vertex_list 0 mesh_verts = (None, vertex_list)"
    if "d \<noteq> 0" "\<And>p. rot p 0 = p" for coord rot lo d s e
  proof (rule twist_loop_identity)
    show "twist_vertex coord rot lo d (max a b / 100 - min a b / 100) 0 s e p = Inr p" for p
      using that rd by (simp add: twist_vertex_def fdiv_def)
    show "length vertex_list = length mesh_verts" by (rule assms(3))
  qed
  from assms(1) show ?thesis
  proof
    assume "Axis = ''x''"
    with assms(2) loop [of "max_x bb - min_x bb" rot_x] show ?thesis
      by (simp add: twist_mesh_def Let_def axis_extent_def rot_x_0)
  next
    assume "Axis = ''y''"
    with assms(2) loop [of "max_y bb - min_y bb" rot_y] show ?thesis
      by (simp add: twist_mesh_def Let_def axis_extent_def rot_y_0)
  qed
qed

text \<open>
  C2 (twist by angle 0 restores every vertex, on every axis): the Z branch does not.
  \<^verbatim>\<open>rot_z\<close> returns \<^verbatim>\<open>(x*c-y*s, x*s+y*s, z)\<close> where \<^verbatim>\<open>rot_x\<close> and \<^verbatim>\<open>rot_y\<close> have
  \<^verbatim>\<open>y*s+z*c\<close> and \<^verbatim>\<open>x*s+z*c\<close>; at angle 0 the second component becomes 0.  The vertex
  \<open>(1, 2, 3)\<close> of a mesh whose box spans \<open>z \<in> [0, 6]\<close>, twisted about Z by 0 degrees over
  the range 0..100, ends at \<open>(1, 0, 3)\<close>.
\<close>

theorem twist_z_zero_angle_moves_vertex:
  "twist_mesh \<lparr>min_x = 0, max_x = 2, min_y = 0, max_y = 4, min_z = 0, max_z = 6\<rparr>
     [(1, 2, 3)] [(1, 2, 3)] ''z'' 0 0 100 = (Inr True, [(1, 0, 3)])"
  by (simp add: twist_mesh_def twist_vertex_def fdiv_def rot_z_def)

text \<open>
  C3 (a zero extent along the axis is a guarded, silent no-op): the division
  \<^verbatim>\<open>(vertex_list[index][1]-min_y)/d\<close> is not guarded.  For a one-vertex mesh that is flat
  in Y the call raises \<^verbatim>\<open>ZeroDivisionError\<close>.
\<close>

theorem twist_zero_extent_counterexample:
  "twist_mesh \<lparr>min_x = 0, max_x = 2, min_y = 2, max_y = 2, min_z = 0, max_z = 6\<rparr>
     [(1, 2, 3)] [(1, 2, 3)] ''y'' 90 0 100 = (Inl ZeroDivisionError, [(1, 2, 3)])"
  by (simp add: twist_mesh_def twist_vertex_def fdiv_def)

text \<open>
  C3, amended: when the extent of the bounding box along the chosen axis is zero and the
  mesh has at least one vertex, \<^verbatim>\<open>twist_mesh\<close> raises \<^verbatim>\<open>ZeroDivisionError\<close> at the first
  vertex, before any position is written: no vertex position is changed.
\<close>

theorem twist_zero_extent_raises:
  assumes "Axis = ''x'' \<or> Axis = ''y'' \<or> Axis = ''z''"
    and "axis_extent bb Axis = 0"
    and "vertex_list \<noteq> []" and "mesh_verts \<noteq> []"
  shows "twist_mesh bb vertex_list mesh_verts Axis Angle StartFrom EndAt
           = (Inl ZeroDivisionError, mesh_verts)"
proof -
  have body: "twist_vertex coord rot lo 0 rd A s e p = Inl ZeroDivisionError"
    for coord rot lo rd A s e p
    by (simp add: twist_vertex_def fdiv_def)
  from assms(4) obtain v vs where "mesh_verts = v # vs" by (cases mesh_verts) auto
  with assms(1,2,3) show ?thesis
    by (auto simp: twist_mesh_def Let_def axis_extent_def body)
qed

theorem twist_zero_extent_raises_witness:
  "axis_extent \<lparr>min_x = 0, max_x = 2, min_y = 2, max_y = 2, min_z = 0, max_z = 6\<rparr> ''y'' = 0 \<and>
   twist_mesh \<lparr>min_x = 0, max_x = 2, min_y = 2, max_y = 2, min_z = 0, max_z = 6\<rparr>
     [(1, 2, 3), (0, 2, 1)] [(1, 2, 3), (0, 2, 1)] ''y'' 90 0 100
     = (Inl ZeroDivisionError, [(1, 2, 3), (0, 2, 1)])"
  using twist_zero_extent_raises
     [of "''y''" "\<lparr>min_x = 0, max_x = 2, min_y = 2, max_y = 2, min_z = 0, max_z = 6\<rparr>"
         "[(1, 2, 3), (0, 2, 1)]" "[(1, 2, 3), (0, 2, 1)]" 90 0 100]
  by (simp add: axis_extent_def)

text \<open>
  C9: when the start and end percentages are equal and some vertex has its fraction \<open>t\<close>
  equal to that value (on a box that is not flat along the axis), \<^verbatim>\<open>twist_mesh\<close> raises
  \<^verbatim>\<open>ZeroDivisionError\<close>: the in-range branch divides by \<open>rd = EndAt - StartFrom = 0\<close>.
\<close>

theorem twist_equal_range_raises:
  assumes axis: "Axis = ''x'' \<or> Axis = ''y'' \<or> Axis = ''z''"
    and ext: "axis_extent bb Axis \<noteq> 0"
    and len: "length vertex_list = length mesh_verts"
    and k: "k < length mesh_verts"
    and t: "axis_fraction bb Axis (vertex_list ! k) = a / 100"
  shows "fst (twist_mesh bb vertex_list mesh_verts Axis Angle a a) = Inl ZeroDivisionError"
proof -
  have loop: "fst (twist_loop (twist_vertex coord rot lo d 0 A (a / 100) (a / 100))
                  vertex_list 0 mesh_verts) = Some ZeroDivisionError"
    if "d \<noteq> 0" "(coord (vertex_list ! k) - lo) / d = a / 100" for coord rot lo d A
  proof (rule twist_loop_raises)
    show "twist_vertex coord rot lo d 0 A (a / 100) (a / 100) p = Inr p
        \<or> twist_vertex coord rot lo d 0 A (a / 100) (a / 100) p = Inl ZeroDivisionError" for p
      using that(1) by (simp add: twist_vertex_empty_range)
    show "0 + length mesh_verts \<le> length vertex_list" using len by simp
    show "\<exists>i\<ge>0. i < 0 + length mesh_verts \<and>
          twist_vertex coord rot lo d 0 A (a / 100) (a / 100) (vertex_list ! i) = Inl ZeroDivisionError"
      using that k by (intro exI [of _ k]) (simp add: twist_vertex_empty_range)
  qed
  from axis show ?thesis
  proof (elim disjE)
    assume "Axis = ''x''"
    with ext t loop [of "max_x bb - min_x bb" fst "min_x bb" rot_x] show ?thesis
      by (simp add: twist_mesh_def Let_def axis_extent_def axis_fraction_def split_beta)
  next
    assume "Axis = ''y''"
    with ext t loop [of "max_y bb - min_y bb" "\<lambda>p. fst (snd p)" "min_y bb" rot_y] show ?thesis
      by (simp add: twist_mesh_def Let_def axis_extent_def axis_fraction_def split_beta)
  next
    assume "Axis = ''z''"
    with ext t loop [of "max_z bb - min_z bb" "\<lambda>p. snd (snd p)" "min_z bb" rot_z] show ?thesis
      by (simp add: twist_mesh_def Let_def axis_extent_def axis_fraction_def split_beta)
  qed
qed

theorem twist_equal_range_raises_witness:
  "axis_extent \<lparr>min_x = 0, max_x = 2, min_y = 0, max_y = 4, min_z = 0, max_z = 6\<rparr> ''x'' \<noteq> 0 \<and>
   axis_fraction \<lparr>min_x = 0, max_x = 2, min_y = 0, max_y = 4, min_z = 0, max_z = 6\<rparr> ''x''
       ([(0, 0, 0), (1, 2, 3)] ! 1) = 50 / 100 \<and>
   fst (twist_mesh \<lparr>min_x = 0, max_x = 2, min_y = 0, max_y = 4, min_z = 0, max_z = 6\<rparr>
          [(0, 0, 0), (1, 2, 3)] [(0, 0, 0), (1, 2, 3)] ''x'' 90 50 50)
     = Inl ZeroDivisionError"
  using twist_equal_range_raises
     [of "''x''" "\<lparr>min_x = 0, max_x = 2, min_y = 0, max_y = 4, min_z = 0, max_z = 6\<rparr>"
         "[(0, 0, 0), (1, 2, 3)]" "[(0, 0, 0), (1, 2, 3)]" 1 50 90]
  by (simp add: axis_extent_def axis_fraction_def)

section \<open>Sphere: vertex and face counts\<close>

lemma Sphere_fan_faces_Inr:
  assumes U: "U + 2 \<le> int n"
  shows "Sphere_fan_faces n sm U = Inr (concat (map (Sphere_fan_pair n sm U) (xrange U)))"
  unfolding Sphere_fan_faces_def
proof (rule concatE_Inr)
  fix k assume "k \<in> set (xrange U)"
  then have k: "0 \<le> k" "k < U" by (auto simp: set_xrange)
  then have m: "0 \<le> (k + 1) mod U" "(k + 1) mod U < U" by simp_all
  have 1: "Face n sm [-1, - (k + 3), - ((k + 1) mod U + 3)]
            = Inr (tri sm (vpos n (-1)) (vpos n (- (k + 3))) (vpos n (- ((k + 1) mod U + 3))))"
    by (rule Face3_tri) (use U k m in linarith)+
  have 2: "Face n sm [-2, k, (k + 1) mod U]
            = Inr (tri sm (vpos n (-2)) (vpos n k) (vpos n ((k + 1) mod U)))"
    by (rule Face3_tri) (use U k m in linarith)+
  show "(let i = k; j = (k + 1) mod U in
                ebind (Face n sm [-1, - (i + 3), - (j + 3)]) (\<lambda>f.
                ebind (Face n sm [-2, i, j]) (\<lambda>g.
                Inr [f, g])))
       = Inr (Sphere_fan_pair n sm U k)"
    unfolding Let_def 1 2 Sphere_fan_pair_def by simp
qed

lemma Sphere_Inr:
  assumes U: "1 \<le> U" and V: "2 \<le> V"
  shows "\<exists>vs. length vs = nat (U * (V - 1)) \<and>
      Sphere R U V sm =
        Inr \<lparr>verts = vs @ [(0, 0, R), (0, 0, - R)],
             faces = concat (map (\<lambda>i. map (quad sm U (U * i) (U * (i + 1))) (xrange U))
                              (xrange (V - 2)))
                     @ concat (map (Sphere_fan_pair (nat (U * (V - 1)) + 2) sm U) (xrange U))\<rparr>"
proof -
  define da where "da = 180 / real_of_int V"
  define vs where "vs = ring_loop (nat (V - 1))
                (\<lambda>angle. MakeVertexRing U (R * sin (angle / 180 * pi)) (R * cos (angle / 180 * pi)))
                da da"
  have len: "length vs = nat (U * (V - 1))"
  proof -
    have "length vs = nat (V - 1) * nat U"
      unfolding vs_def by (simp add: length_ring_loop [where m = "nat U"])
    also have "\<dots> = nat (U * (V - 1))"
      using U V by (simp add: nat_mult_distrib mult.commute)
    finally show ?thesis .
  qed
  have n: "int (length vs) = U * (V - 1)" using len U V by simp
  have n2: "int (length vs + 2) = U * (V - 1) + 2" using n by simp
  have skin: "concatE (\<lambda>i. quad_strip (length vs + 2) sm U (U * i) (U * (i + 1))) (xrange (V - 2))
      = Inr (concat (map (\<lambda>i. map (quad sm U (U * i) (U * (i + 1))) (xrange U)) (xrange (V - 2))))"
  proof (rule skin_Inr)
    fix i :: int assume i: "0 \<le> i" "i < V - 2"
    have a: "0 \<le> U * i" "U * i + U \<le> U * (V - 2)"
      using ring_bounds [OF i, of U] U by simp_all
    have b: "U * (V - 2) + U = U * (V - 1)" by (simp add: algebra_simps)
    have c: "U * (i + 1) = U * i + U" by (simp add: algebra_simps)
    show "0 \<le> U * i \<and> 0 \<le> U * (i + 1) \<and> U * i + U \<le> int (length vs + 2)
           \<and> U * (i + 1) + U \<le> int (length vs + 2)"
      unfolding n2 c using a b U by linarith
  qed
  have "U \<le> U * (V - 1)" using U V by (simp add: mult_le_cancel_left1)
  then have fans: "Sphere_fan_faces (length vs + 2) sm U
      = Inr (concat (map (Sphere_fan_pair (nat (U * (V - 1)) + 2) sm U) (xrange U)))"
    using Sphere_fan_faces_Inr [of U "length vs + 2" sm] n len by simp
  have fd: "fdiv 180 (real_of_int V) = Inr da"
    using V by (simp add: fdiv_def da_def)
  have la: "length (vs @ [(0, 0, R), (0, 0, - R)]) = length vs + 2" by simp
  have "Sphere R U V sm =
        Inr \<lparr>verts = vs @ [(0, 0, R), (0, 0, - R)],
             faces = concat (map (\<lambda>i. map (quad sm U (U * i) (U * (i + 1))) (xrange U))
                              (xrange (V - 2)))
                     @ concat (map (Sphere_fan_pair (nat (U * (V - 1)) + 2) sm U) (xrange U))\<rparr>"
    unfolding Sphere_def Let_def fd ebind_Inr vs_def [symmetric] la skin fans
    by (rule refl)
  with len show ?thesis by blast
qed

text \<open>
  C7: for \<open>U \<ge> 3\<close> and \<open>V \<ge> 3\<close> the full sphere build succeeds and emits
  \<open>U \<times> (V - 1) + 2\<close> vertices, \<open>U \<times> (V - 2)\<close> quads and \<open>2U\<close> triangles.
\<close>

theorem Sphere_counts:
  assumes "3 \<le> U" "3 \<le> V"
  shows "\<exists>m. Sphere R U V sm = Inr m
     \<and> length (verts m) = nat (U * (V - 1)) + 2
     \<and> length (faces m) = nat (U * (V - 2)) + nat (2 * U)
     \<and> length (filter (\<lambda>f. length (f_v f) = 4) (faces m)) = nat (U * (V - 2))
     \<and> length (filter (\<lambda>f. length (f_v f) = 3) (faces m)) = nat (2 * U)"
proof -
  define skin where "skin = concat (map (\<lambda>i. map (quad sm U (U * i) (U * (i + 1))) (xrange U))
                              (xrange (V - 2)))"
  define fans where "fans = concat (map (Sphere_fan_pair (nat (U * (V - 1)) + 2) sm U) (xrange U))"
  from assms have "1 \<le> U" "2 \<le> V" by simp_all
  from Sphere_Inr [OF this, of R sm]
  obtain vs where vs: "length vs = nat (U * (V - 1))"
    and m: "Sphere R U V sm = Inr \<lparr>verts = vs @ [(0, 0, R), (0, 0, - R)], faces = skin @ fans\<rparr>"
    unfolding skin_def fans_def by blast
  have ls: "length skin = nat (U * (V - 2))"
    using assms unfolding skin_def length_quads by (simp add: nat_mult_distrib mult.commute)
  have lc: "length fans = nat (2 * U)"
    using assms unfolding fans_def by (simp add: length_concat_const [where m = 2] Sphere_fan_pair_def)
  have s4: "\<forall>f \<in> set skin. length (f_v f) = 4"
    unfolding skin_def by (auto simp: quad_def)
  have c3: "\<forall>f \<in> set fans. length (f_v f) = 3"
    unfolding fans_def by (auto simp: Sphere_fan_pair_def tri_def)
  have f4: "filter (\<lambda>f. length (f_v f) = 4) skin = skin"
    "filter (\<lambda>f. length (f_v f) = 4) fans = []"
    using s4 c3 by (simp_all add: filter_empty_conv)
  have f3: "filter (\<lambda>f. length (f_v f) = 3) skin = []"
    "filter (\<lambda>f. length (f_v f) = 3) fans = fans"
    using s4 c3 by (simp_all add: filter_empty_conv)
  show ?thesis
    unfolding m using vs ls lc by (simp add: f4 f3)
qed

theorem Sphere_counts_witness:
  "(3::int) \<le> 4 \<and> (3::int) \<le> 3 \<and>
   (\<exists>m. Sphere 1 4 3 True = Inr m
      \<and> length (verts m) = 10
      \<and> length (faces m) = 12
      \<and> length (filter (\<lambda>f. length (f_v f) = 4) (faces m)) = 4
      \<and> length (filter (\<lambda>f. length (f_v f) = 3) (faces m)) = 8)"
  using Sphere_counts [of 4 3 1 True] by simp

section \<open>Torus\<close>

lemma length_Torus_MakeVertexRing [simp]:
  "length (Torus_MakeVertexRing rot R r M a angle) = nat M"
  by (simp add: Torus_MakeVertexRing_def)

lemma ring_loop_snoc:
  "ring_loop (Suc n) emit a d = ring_loop n emit a d @ emit (a + real n * d)"
proof (induction n arbitrary: a)
  case 0
  show ?case by simp
next
  case (Suc n)
  have "ring_loop (Suc (Suc n)) emit a d = emit a @ ring_loop (Suc n) emit (a + d) d" by simp
  also have "\<dots> = emit a @ ring_loop n emit (a + d) d @ emit (a + d + real n * d)"
    by (simp only: Suc.IH)
  also have "a + d + real n * d = a + real (Suc n) * d" by (simp add: algebra_simps)
  finally show ?case by simp
qed

lemma Torus_Inr:
  assumes D: "1 \<le> D" and M: "1 \<le> M"
  shows "Torus rot R r D M a sm =
        Inr \<lparr>verts = ring_loop (nat D) (Torus_MakeVertexRing rot R r M (a * 2 * pi / 180))
                        0 (360 / real_of_int D),
             faces = concat (map (\<lambda>i. map (quad sm M (M * i) (M * ((i + 1) mod D))) (xrange M))
                              (xrange D))\<rparr>"
proof -
  define vs where "vs = ring_loop (nat D) (Torus_MakeVertexRing rot R r M (a * 2 * pi / 180))
                        0 (360 / real_of_int D)"
  have len: "length vs = nat D * nat M"
    unfolding vs_def by (simp add: length_ring_loop [where m = "nat M"])
  have n: "int (length vs) = M * D" using len D M by (simp add: mult.commute)
  have skin: "concatE (\<lambda>i. quad_strip (length vs) sm M (M * i) (M * ((i + 1) mod D))) (xrange D)
      = Inr (concat (map (\<lambda>i. map (quad sm M (M * i) (M * ((i + 1) mod D))) (xrange M)) (xrange D)))"
  proof (rule skin_Inr)
    fix i :: int assume i: "0 \<le> i" "i < D"
    have m: "0 \<le> (i + 1) mod D" "(i + 1) mod D < D" using D by simp_all
    have a: "0 \<le> M * i" "M * i + M \<le> M * D"
      using ring_bounds [OF i, of M] M by simp_all
    have b: "0 \<le> M * ((i + 1) mod D)" "M * ((i + 1) mod D) + M \<le> M * D"
      using ring_bounds [OF m, of M] M by simp_all
    show "0 \<le> M * i \<and> 0 \<le> M * ((i + 1) mod D) \<and> M * i + M \<le> int (length vs)
           \<and> M * ((i + 1) mod D) + M \<le> int (length vs)"
      unfolding n using a b by linarith
  qed
  have fd: "fdiv 360 (real_of_int D) = Inr (360 / real_of_int D)"
    using D by (simp add: fdiv_def)
  show ?thesis
    unfolding Torus_def Let_def fd ebind_Inr vs_def [symmetric] skin
    by (rule refl)
qed

lemma Torus2_caps_Inr:
  assumes "M \<le> int n"
  shows "mapE (\<lambda>i. Face n sm [0, i, i + 1]) (xrange (M - 1)) = Inr (Torus2_cap_start n sm M)"
    and "mapE (\<lambda>i. Face n sm [-1, - (i + 1), - (i + 2)]) (xrange (M - 1))
           = Inr (Torus2_cap_end n sm M)"
proof -
  show "mapE (\<lambda>i. Face n sm [0, i, i + 1]) (xrange (M - 1)) = Inr (Torus2_cap_start n sm M)"
    unfolding Torus2_cap_start_def
  proof (rule mapE_Inr)
    fix i assume "i \<in> set (xrange (M - 1))"
    then have i: "0 \<le> i" "i < M - 1" by (auto simp: set_xrange)
    show "Face n sm [0, i, i + 1] = Inr (tri sm (vpos n 0) (vpos n i) (vpos n (i + 1)))"
      by (rule Face3_tri) (use assms i in linarith)+
  qed
  show "mapE (\<lambda>i. Face n sm [-1, - (i + 1), - (i + 2)]) (xrange (M - 1))
           = Inr (Torus2_cap_end n sm M)"
    unfolding Torus2_cap_end_def
  proof (rule mapE_Inr)
    fix i assume "i \<in> set (xrange (M - 1))"
    then have i: "0 \<le> i" "i < M - 1" by (auto simp: set_xrange)
    show "Face n sm [-1, - (i + 1), - (i + 2)]
            = Inr (tri sm (vpos n (-1)) (vpos n (- (i + 1))) (vpos n (- (i + 2))))"
      by (rule Face3_tri) (use assms i in linarith)+
  qed
qed

lemma Torus2_Inr:
  assumes D: "1 \<le> D" and M: "1 \<le> M"
  shows "Torus2 rot R r D M s0 CapStart e0 CapEnd a sm =
        Inr \<lparr>verts = ring_loop (nat (D + 1)) (Torus_MakeVertexRing rot R r M (a * 2 * pi / 180))
                        (min s0 e0) ((max s0 e0 - min s0 e0) / real_of_int D),
             faces = concat (map (\<lambda>i. map (quad sm M (M * i) (M * (i + 1))) (xrange M))
                              (xrange D))
                     @ (if CapStart then Torus2_cap_start (nat (M * (D + 1))) sm M else [])
                     @ (if CapEnd then Torus2_cap_end (nat (M * (D + 1))) sm M else [])\<rparr>"
proof -
  define vs where "vs = ring_loop (nat (D + 1)) (Torus_MakeVertexRing rot R r M (a * 2 * pi / 180))
                        (min s0 e0) ((max s0 e0 - min s0 e0) / real_of_int D)"
  have len0: "length vs = nat (D + 1) * nat M"
    unfolding vs_def by (simp add: length_ring_loop [where m = "nat M"])
  then have len: "length vs = nat (M * (D + 1))"
    using D M by (simp add: nat_mult_distrib mult.commute)
  have n: "int (length vs) = M * (D + 1)" using len D M by simp
  have skin: "concatE (\<lambda>i. quad_strip (length vs) sm M (M * i) (M * (i + 1))) (xrange D)
      = Inr (concat (map (\<lambda>i. map (quad sm M (M * i) (M * (i + 1))) (xrange M)) (xrange D)))"
  proof (rule skin_Inr)
    fix i :: int assume i: "0 \<le> i" "i < D"
    have a: "0 \<le> M * i" "M * i + M \<le> M * D"
      using ring_bounds [OF i, of M] M by simp_all
    have c: "M * (i + 1) = M * i + M" "M * (D + 1) = M * D + M" by (simp_all add: algebra_simps)
    show "0 \<le> M * i \<and> 0 \<le> M * (i + 1) \<and> M * i + M \<le> int (length vs)
           \<and> M * (i + 1) + M \<le> int (length vs)"
      unfolding n c using a M by linarith
  qed
  have "M \<le> M * (D + 1)" using D M by (simp add: mult_le_cancel_left1)
  then have Mn: "M \<le> int (length vs)" using n by simp
  have fd: "fdiv (max s0 e0 - min s0 e0) (real_of_int D)
              = Inr ((max s0 e0 - min s0 e0) / real_of_int D)"
    using D by (simp add: fdiv_def)
  have cs: "(if CapStart then mapE (\<lambda>i. Face (length vs) sm [0, i, i + 1]) (xrange (M - 1))
             else Inr []) = Inr (if CapStart then Torus2_cap_start (nat (M * (D + 1))) sm M else [])"
    using Torus2_caps_Inr(1) [OF Mn] len by simp
  have ce: "(if CapEnd then mapE (\<lambda>i. Face (length vs) sm [-1, - (i + 1), - (i + 2)]) (xrange (M - 1))
             else Inr []) = Inr (if CapEnd then Torus2_cap_end (nat (M * (D + 1))) sm M else [])"
    using Torus2_caps_Inr(2) [OF Mn] len by simp
  show ?thesis
    unfolding Torus2_def Let_def fd ebind_Inr vs_def [symmetric] skin cs ce
    by (rule refl)
qed


lemma xrange_Cons: "0 < k \<Longrightarrow> xrange k = 0 # map (\<lambda>i. i + 1) (xrange (k - 1))"
proof -
  assume k: "0 < k"
  then obtain m where m: "nat k = Suc m" by (cases "nat k") auto
  then have "nat (k - 1) = m" by simp
  moreover have "[0..<Suc m] = 0 # map Suc [0..<m]"
    unfolding map_Suc_upt by (rule upt_conv_Cons) simp
  ultimately show ?thesis
    unfolding xrange_def m by (simp add: comp_def)
qed

lemma Torus2_cap_start_degenerate:
  assumes "2 \<le> M"
  shows "hd (Torus2_cap_start n sm M) = tri sm 0 0 1"
    and "filter degenerate (Torus2_cap_start n sm M) = [tri sm 0 0 1]"
proof -
  have x: "xrange (M - 1) = 0 # map (\<lambda>i. i + 1) (xrange (M - 1 - 1))"
    using assms by (intro xrange_Cons) simp
  have rest: "filter degenerate
      (map (\<lambda>i. tri sm (vpos n 0) (vpos n i) (vpos n (i + 1))) (map (\<lambda>i. i + 1) (xrange (M - 1 - 1)))) = []"
    by (auto simp: filter_empty_conv degenerate_def tri_def vpos_def set_xrange)
  show "hd (Torus2_cap_start n sm M) = tri sm 0 0 1"
    unfolding Torus2_cap_start_def x by (simp add: vpos_def)
  show "filter degenerate (Torus2_cap_start n sm M) = [tri sm 0 0 1]"
    unfolding Torus2_cap_start_def x list.map filter.simps rest
    by (simp add: vpos_def degenerate_def tri_def)
qed

lemma Torus2_cap_end_degenerate:
  assumes "2 \<le> M" "M \<le> int n"
  shows "hd (Torus2_cap_end n sm M) = tri sm (n - 1) (n - 1) (n - 2)"
    and "filter degenerate (Torus2_cap_end n sm M) = [tri sm (n - 1) (n - 1) (n - 2)]"
proof -
  have x: "xrange (M - 1) = 0 # map (\<lambda>i. i + 1) (xrange (M - 1 - 1))"
    using assms by (intro xrange_Cons) simp
  have v: "vpos n (- 1) = n - 1" "vpos n (- 2) = n - 2"
    using assms by (simp_all add: vpos_def nat_diff_distrib')
  have rest: "filter degenerate
      (map (\<lambda>i. tri sm (vpos n (-1)) (vpos n (- (i + 1))) (vpos n (- (i + 2))))
           (map (\<lambda>i. i + 1) (xrange (M - 1 - 1)))) = []"
    using assms(2)
    by (auto simp: filter_empty_conv degenerate_def tri_def vpos_def set_xrange)
  show "hd (Torus2_cap_end n sm M) = tri sm (n - 1) (n - 1) (n - 2)"
    unfolding Torus2_cap_end_def x by (simp add: v)
  show "filter degenerate (Torus2_cap_end n sm M) = [tri sm (n - 1) (n - 1) (n - 2)]"
    unfolding Torus2_cap_end_def x list.map filter.simps rest
    by (simp add: v degenerate_def tri_def)
qed

text \<open>
  C10: in the cut torus every enabled cap has \<open>MinorDivisions - 1\<close> faces, of which exactly
  the first is degenerate: \<open>(ring[0], ring[0], ring[1])\<close> for the start cap, and for the end
  cap the triangle that references the last vertex twice.  The faces of the mesh are the
  skin, then the start cap, then the end cap.
\<close>

theorem Torus2_caps_degenerate:
  assumes "3 \<le> D" "3 \<le> M"
  shows "\<exists>m skin cs ce. Torus2 rot R r D M s0 CapStart e0 CapEnd a sm = Inr m
     \<and> length (verts m) = nat (M * (D + 1))
     \<and> faces m = skin @ cs @ ce \<and> length skin = nat (D * M)
     \<and> (if CapStart
         then length cs = nat (M - 1) \<and> hd cs = tri sm 0 0 1
              \<and> filter degenerate cs = [tri sm 0 0 1]
         else cs = [])
     \<and> (if CapEnd
         then length ce = nat (M - 1)
              \<and> hd ce = tri sm (nat (M * (D + 1)) - 1) (nat (M * (D + 1)) - 1) (nat (M * (D + 1)) - 2)
              \<and> filter degenerate ce
                   = [tri sm (nat (M * (D + 1)) - 1) (nat (M * (D + 1)) - 1) (nat (M * (D + 1)) - 2)]
         else ce = [])"
proof -
  define n where "n = nat (M * (D + 1))"
  from assms have D: "1 \<le> D" and M: "1 \<le> M" and M2: "2 \<le> M" by simp_all
  have "M \<le> M * (D + 1)" using D M by (simp add: mult_le_cancel_left1)
  then have Mn: "M \<le> int n" unfolding n_def using D M by simp
  have lv: "length (ring_loop (nat (D + 1)) (Torus_MakeVertexRing rot R r M (a * 2 * pi / 180))
                        (min s0 e0) ((max s0 e0 - min s0 e0) / real_of_int D)) = n"
    unfolding n_def using D M
    by (simp add: length_ring_loop [where m = "nat M"] nat_mult_distrib mult.commute)
  have ls: "length (concat (map (\<lambda>i. map (quad sm M (M * i) (M * (i + 1))) (xrange M)) (xrange D)))
      = nat (D * M)"
    using D M unfolding length_quads by (simp add: nat_mult_distrib)
  show ?thesis
    apply (rule exI [of _ "\<lparr>verts = ring_loop (nat (D + 1)) (Torus_MakeVertexRing rot R r M (a * 2 * pi / 180))
                        (min s0 e0) ((max s0 e0 - min s0 e0) / real_of_int D),
             faces = concat (map (\<lambda>i. map (quad sm M (M * i) (M * (i + 1))) (xrange M))
                              (xrange D))
                     @ (if CapStart then Torus2_cap_start (nat (M * (D + 1))) sm M else [])
                     @ (if CapEnd then Torus2_cap_end (nat (M * (D + 1))) sm M else [])\<rparr>"])
    apply (rule exI [of _ "concat (map (\<lambda>i. map (quad sm M (M * i) (M * (i + 1))) (xrange M)) (xrange D))"])
    apply (rule exI [of _ "if CapStart then Torus2_cap_start (nat (M * (D + 1))) sm M else []"])
    apply (rule exI [of _ "if CapEnd then Torus2_cap_end (nat (M * (D + 1))) sm M else []"])
    unfolding n_def [symmetric]
    using Torus2_Inr [OF D M, of rot R r s0 CapStart e0 CapEnd a sm] lv ls
      Torus2_cap_start_degenerate [OF M2, of n sm] Torus2_cap_end_degenerate [OF M2 Mn, of sm]
    by (simp add: n_def [symmetric] Torus2_cap_start_def Torus2_cap_end_def)
qed

theorem Torus2_caps_degenerate_witness:
  "(3::int) \<le> 3 \<and>
   (\<exists>m skin cs ce. Torus2 (\<lambda>angle p. p) 1 (1/4) 3 3 0 True 90 True 0 True = Inr m
     \<and> length (verts m) = 12
     \<and> faces m = skin @ cs @ ce \<and> length skin = 9
     \<and> length cs = 2 \<and> hd cs = tri True 0 0 1 \<and> filter degenerate cs = [tri True 0 0 1]
     \<and> length ce = 2 \<and> hd ce = tri True 11 11 10 \<and> filter degenerate ce = [tri True 11 11 10])"
  using Torus2_caps_degenerate [of 3 3 "\<lambda>angle p. p" 1 "1/4" 0 True 90 True 0 True] by simp

section \<open>Cut torus over the full turn\<close>

lemma xrange_snoc: "1 \<le> D \<Longrightarrow> xrange D = xrange (D - 1) @ [D - 1]"
proof -
  assume D: "1 \<le> D"
  then obtain m where m: "nat D = Suc m" by (cases "nat D") auto
  then have "nat (D - 1) = m" "int m = D - 1" using D by simp_all
  then show ?thesis unfolding xrange_def m by simp
qed

lemma Torus_faces_split:
  assumes D: "1 \<le> D"
  shows "concat (map (\<lambda>i. map (quad sm M (M * i) (M * ((i + 1) mod D))) (xrange M)) (xrange D))
     = concat (map (\<lambda>i. map (quad sm M (M * i) (M * (i + 1))) (xrange M)) (xrange (D - 1)))
       @ map (quad sm M (M * (D - 1)) 0) (xrange M)"
proof -
  have eq: "map (\<lambda>i. map (quad sm M (M * i) (M * ((i + 1) mod D))) (xrange M)) (xrange (D - 1))
      = map (\<lambda>i. map (quad sm M (M * i) (M * (i + 1))) (xrange M)) (xrange (D - 1))"
  proof (rule map_cong [OF refl])
    fix i assume "i \<in> set (xrange (D - 1))"
    then have "0 \<le> i" "i < D - 1" by (auto simp: set_xrange)
    then have "(i + 1) mod D = i + 1" by simp
    then show "map (quad sm M (M * i) (M * ((i + 1) mod D))) (xrange M)
             = map (quad sm M (M * i) (M * (i + 1))) (xrange M)" by simp
  qed
  have last: "M * ((D - 1 + 1) mod D) = 0" by simp
  show ?thesis
    by (simp only: xrange_snoc [OF D] map_append concat_append eq list.map concat.simps
          append_Nil2 last)
qed

lemma Torus2_faces_split:
  assumes D: "1 \<le> D"
  shows "concat (map (\<lambda>i. map (quad sm M (M * i) (M * (i + 1))) (xrange M)) (xrange D))
     = concat (map (\<lambda>i. map (quad sm M (M * i) (M * (i + 1))) (xrange M)) (xrange (D - 1)))
       @ map (quad sm M (M * (D - 1)) (M * D)) (xrange M)"
  unfolding xrange_snoc [OF D] by simp

text \<open>
  C5: for \<open>MajorDivisions \<ge> 3\<close> and \<open>MinorDivisions \<ge> 3\<close> the cut torus from 0 to 360
  degrees without caps and the full torus both build, with the same number of faces
  \<open>D \<times> M\<close>.  Their faces agree on the first \<open>D - 1\<close> strips (the list \<open>A\<close>); the last
  strip stitches ring \<open>D - 1\<close> to ring 0 (position 0) in the full torus and to the extra
  ring \<open>D\<close> (position \<open>M \<times> D\<close>) in the cut torus.  The vertices of the cut torus are those
  of the full torus followed by that extra ring, sampled at 360 degrees; under a host
  rotation that agrees at 0 and 360 degrees it is a copy of the first ring.
\<close>

theorem Torus2_full_turn_equiv:
  assumes "3 \<le> D" "3 \<le> M"
  shows "\<exists>m1 m2 A rest.
     Torus rot R r D M a sm = Inr m1
     \<and> Torus2 rot R r D M 0 False 360 False a sm = Inr m2
     \<and> length (faces m1) = nat (D * M) \<and> length (faces m2) = nat (D * M)
     \<and> length A = nat ((D - 1) * M)
     \<and> faces m1 = A @ map (quad sm M (M * (D - 1)) 0) (xrange M)
     \<and> faces m2 = A @ map (quad sm M (M * (D - 1)) (M * D)) (xrange M)
     \<and> length (verts m1) = nat (M * D)
     \<and> verts m1 = Torus_MakeVertexRing rot R r M (a * 2 * pi / 180) 0 @ rest
     \<and> verts m2 = verts m1 @ Torus_MakeVertexRing rot R r M (a * 2 * pi / 180) 360
     \<and> (rot 360 = rot 0 \<longrightarrow> verts m2 = verts m1 @ take (nat M) (verts m1))"
proof -
  from assms have D: "1 \<le> D" and M: "1 \<le> M" by simp_all
  define emit where "emit = Torus_MakeVertexRing rot R r M (a * 2 * pi / 180)"
  define da where "da = 360 / real_of_int D"
  define A where "A = concat (map (\<lambda>i. map (quad sm M (M * i) (M * (i + 1))) (xrange M))
                                (xrange (D - 1)))"
  define vs where "vs = ring_loop (nat D) emit 0 da"
  obtain k where k: "nat D = Suc k" using D by (cases "nat D") auto
  define rest where "rest = ring_loop k emit (0 + da) da"
  have vs0: "vs = emit 0 @ rest" unfolding vs_def rest_def k by simp
  have "real (nat D) * da = 360" unfolding da_def using D by simp
  then have vs2: "ring_loop (nat (D + 1)) emit (min 0 360) ((max 0 360 - min 0 360) / real_of_int D)
      = vs @ emit 360"
    using D ring_loop_snoc [of "nat D" emit 0 da]
    by (simp add: nat_add_distrib vs_def da_def)
  have lv: "length vs = nat (M * D)"
    unfolding vs_def emit_def using D M
    by (simp add: length_ring_loop [where m = "nat M"] nat_mult_distrib mult.commute)
  have le: "length (emit 0) = nat M" unfolding emit_def by simp
  have m1: "Torus rot R r D M a sm
      = Inr \<lparr>verts = vs, faces = A @ map (quad sm M (M * (D - 1)) 0) (xrange M)\<rparr>"
    unfolding Torus_Inr [OF D M] Torus_faces_split [OF D] A_def vs_def emit_def da_def
    by (rule refl)
  have m2: "Torus2 rot R r D M 0 False 360 False a sm
      = Inr \<lparr>verts = vs @ emit 360,
             faces = A @ map (quad sm M (M * (D - 1)) (M * D)) (xrange M)\<rparr>"
    unfolding Torus2_Inr [OF D M] Torus2_faces_split [OF D] A_def
      vs2 [unfolded emit_def] emit_def
    by simp
  have lA: "length A = nat ((D - 1) * M)"
    unfolding A_def length_quads using D M by (simp add: nat_mult_distrib)
  have lf: "nat ((D - 1) * M) + nat M = nat (D * M)"
  proof -
    have "nat ((D - 1) * M) + nat M = nat ((D - 1) * M + M)"
      using D M by (simp add: nat_add_distrib)
    also have "(D - 1) * M + M = D * M" by (simp add: algebra_simps)
    finally show ?thesis .
  qed
  have dup: "rot 360 = rot 0 \<longrightarrow> emit 360 = take (nat M) vs"
    unfolding vs0 using le by (auto simp: emit_def Torus_MakeVertexRing_def)
  show ?thesis
    apply (rule exI [of _ "\<lparr>verts = vs, faces = A @ map (quad sm M (M * (D - 1)) 0) (xrange M)\<rparr>"])
    apply (rule exI [of _ "\<lparr>verts = vs @ emit 360,
             faces = A @ map (quad sm M (M * (D - 1)) (M * D)) (xrange M)\<rparr>"])
    apply (rule exI [of _ A])
    apply (rule exI [of _ rest])
    using m1 m2 lA lf lv vs0 dup
    by (simp add: emit_def)
qed

theorem Torus2_full_turn_equiv_witness:
  "(3::int) \<le> 4 \<and> (3::int) \<le> 3 \<and>
   (\<lambda>angle (x, y, z). (x * cos (angle * pi / 180) - y * sin (angle * pi / 180),
                        x * sin (angle * pi / 180) + y * cos (angle * pi / 180), z)) 360
     = (\<lambda>angle (x, y, z). (x * cos (angle * pi / 180) - y * sin (angle * pi / 180),
                        x * sin (angle * pi / 180) + y * cos (angle * pi / 180), z)) 0 \<and>
   (\<exists>m1 m2 A.
     Torus (\<lambda>angle (x, y, z). (x * cos (angle * pi / 180) - y * sin (angle * pi / 180),
                        x * sin (angle * pi / 180) + y * cos (angle * pi / 180), z))
        1 (1/4) 4 3 0 True = Inr m1
     \<and> Torus2 (\<lambda>angle (x, y, z). (x * cos (angle * pi / 180) - y * sin (angle * pi / 180),
                        x * sin (angle * pi / 180) + y * cos (angle * pi / 180), z))
        1 (1/4) 4 3 0 False 360 False 0 True = Inr m2
     \<and> length (faces m1) = 12 \<and> length (faces m2) = 12
     \<and> length A = 9
     \<and> faces m1 = A @ map (quad True 3 9 0) (xrange 3)
     \<and> faces m2 = A @ map (quad True 3 9 12) (xrange 3)
     \<and> length (verts m1) = 12
     \<and> verts m2 = verts m1 @ take 3 (verts m1))"
  using Torus2_full_turn_equiv [of 4 3
      "\<lambda>angle (x, y, z). (x * cos (angle * pi / 180) - y * sin (angle * pi / 180),
                        x * sin (angle * pi / 180) + y * cos (angle * pi / 180), z)"
      1 "1/4" 0 True]
  by (simp, blast)

section \<open>Tube\<close>

lemma MakeVertexRectange_Inr:
  assumes "Idv \<noteq> 0" "Cdv \<noteq> 0" "Odv \<noteq> 0"
  shows "MakeVertexRectange Ri Ro H Idv Odv Cdv =
     Inr (ring_loop (nat Idv) (\<lambda>z. [(Ri, 0, z)]) 0 (H / real_of_int Idv)
        @ ring_loop (nat Cdv) (\<lambda>x. [(x, 0, H)]) Ri ((Ro - Ri) / real_of_int Cdv)
        @ ring_loop (nat Odv) (\<lambda>z. [(Ro, 0, z)]) H (- (H / real_of_int Odv))
        @ ring_loop (nat Cdv) (\<lambda>x. [(x, 0, 0)]) Ro (- ((Ro - Ri) / real_of_int Cdv)))"
  using assms by (simp add: MakeVertexRectange_def fdiv_def)

lemma MakeVertexRectange_shape:
  assumes "1 \<le> Idv" "1 \<le> Cdv" "1 \<le> Odv"
  shows "\<exists>vert. MakeVertexRectange Ri Ro H Idv Odv Cdv = Inr ((Ri, 0, 0) # vert)
           \<and> int (length ((Ri, 0, 0) # vert)) = 2 * Cdv + Idv + Odv"
proof -
  obtain k where k: "nat Idv = Suc k" using assms(1) by (cases "nat Idv") auto
  have l: "length (ring_loop (nat Idv) (\<lambda>z. [(Ri, 0, z)]) 0 (H / real_of_int Idv)
        @ ring_loop (nat Cdv) (\<lambda>x. [(x, 0, H)]) Ri ((Ro - Ri) / real_of_int Cdv)
        @ ring_loop (nat Odv) (\<lambda>z. [(Ro, 0, z)]) H (- (H / real_of_int Odv))
        @ ring_loop (nat Cdv) (\<lambda>x. [(x, 0, 0)]) Ro (- ((Ro - Ri) / real_of_int Cdv)))
       = nat Idv + nat Cdv + nat Odv + nat Cdv"
    by (simp add: length_ring_loop [where m = 1])
  have "int (nat Idv + nat Cdv + nat Odv + nat Cdv) = 2 * Cdv + Idv + Odv" using assms by simp
  with l show ?thesis
    unfolding MakeVertexRectange_Inr [of Idv Cdv Odv Ri Ro H] using assms
    by (simp add: MakeVertexRectange_Inr k)
qed

lemma Tube_cap_faces_Inr:
  "vps + 2 \<le> int n \<Longrightarrow> Tube_cap_faces n sm vps = Inr (concat (map (fan_pair n sm vps) (xrange vps)))"
  unfolding Tube_cap_faces_def by (rule fan_pair_Inr)

lemma length_AddYRotatedVertexes [simp]:
  "length (AddYRotatedVertexes vert angle) = length vert"
  by (simp add: AddYRotatedVertexes_def Let_def)

lemma Tube_cut_Inr:
  assumes Idv: "1 \<le> Idv" and Odv: "1 \<le> Odv" and Cdv: "1 \<le> Cdv" and S: "1 \<le> S"
    and vert: "MakeVertexRectange Ri Ro H Idv Odv Cdv = Inr vert"
    and vps: "int (length vert) = 2 * Cdv + Idv + Odv"
  shows "Tube Ri Ro H Idv Odv Cdv S sm StartAngle EndAngle True =
     Inr \<lparr>verts = ring_loop (nat (S + 1)) (AddYRotatedVertexes vert) (deg2rad StartAngle)
                      (deg2rad ((EndAngle - StartAngle) / real_of_int S))
                    @ [RotateZvert ((Ri + Ro) / 2, 0, H / 2) (deg2rad StartAngle),
                       RotateZvert ((Ri + Ro) / 2, 0, H / 2) (deg2rad EndAngle)],
          faces = concat (map (\<lambda>i. map (quad sm (2 * Cdv + Idv + Odv) ((2 * Cdv + Idv + Odv) * i)
                                             ((2 * Cdv + Idv + Odv) * (i + 1)))
                                      (xrange (2 * Cdv + Idv + Odv)))
                              (xrange S))
                  @ concat (map (fan_pair (nat ((2 * Cdv + Idv + Odv) * (S + 1)) + 2) sm (2 * Cdv + Idv + Odv))
                                (xrange (2 * Cdv + Idv + Odv)))\<rparr>"
proof -
  define P where "P = 2 * Cdv + Idv + Odv"
  define vs where "vs = ring_loop (nat (S + 1)) (AddYRotatedVertexes vert) (deg2rad StartAngle)
                      (deg2rad ((EndAngle - StartAngle) / real_of_int S))"
  define cs where "cs = [RotateZvert ((Ri + Ro) / 2, 0, H / 2) (deg2rad StartAngle),
                       RotateZvert ((Ri + Ro) / 2, 0, H / 2) (deg2rad EndAngle)]"
  have P: "1 \<le> P" using Idv Odv Cdv unfolding P_def by simp
  have lvert: "length vert = nat P" using vps unfolding P_def by simp
  have len: "length vs = nat (P * (S + 1))"
    unfolding vs_def using S P
    by (simp add: length_ring_loop [where m = "nat P"] lvert nat_mult_distrib mult.commute)
  have n: "int (length vs) = P * (S + 1)" using len S P by simp
  have fd: "fdiv (EndAngle - StartAngle) (real_of_int S)
              = Inr ((EndAngle - StartAngle) / real_of_int S)"
    using S by (simp add: fdiv_def)
  have skin0: "concatE (\<lambda>i. quad_strip (length vs) sm P (P * i) (P * ((i + 1) mod (S + 1)))) (xrange S)
      = concatE (\<lambda>i. quad_strip (length vs) sm P (P * i) (P * (i + 1))) (xrange S)"
  proof -
    have "mapE (\<lambda>i. quad_strip (length vs) sm P (P * i) (P * ((i + 1) mod (S + 1)))) (xrange S)
        = mapE (\<lambda>i. quad_strip (length vs) sm P (P * i) (P * (i + 1))) (xrange S)"
    proof -
      have *: "mapE f xs = mapE g xs" if "\<And>x. x \<in> set xs \<Longrightarrow> f x = g x"
        for f g :: "int \<Rightarrow> error + face list" and xs
        using that by (induction xs) simp_all
      show ?thesis
      proof (rule *)
        fix i assume "i \<in> set (xrange S)"
        then have "0 \<le> i" "i < S" by (auto simp: set_xrange)
        then have "(i + 1) mod (S + 1) = i + 1" by simp
        then show "quad_strip (length vs) sm P (P * i) (P * ((i + 1) mod (S + 1)))
                 = quad_strip (length vs) sm P (P * i) (P * (i + 1))" by simp
      qed
    qed
    then show ?thesis by (simp only: concatE_def)
  qed
  have skin: "concatE (\<lambda>i. quad_strip (length vs) sm P (P * i) (P * (i + 1))) (xrange S)
      = Inr (concat (map (\<lambda>i. map (quad sm P (P * i) (P * (i + 1))) (xrange P)) (xrange S)))"
  proof (rule skin_Inr)
    fix i :: int assume i: "0 \<le> i" "i < S"
    have a: "0 \<le> P * i" "P * i + P \<le> P * S"
      using ring_bounds [OF i, of P] P by simp_all
    have c: "P * (i + 1) = P * i + P" "P * (S + 1) = P * S + P" by (simp_all add: algebra_simps)
    show "0 \<le> P * i \<and> 0 \<le> P * (i + 1) \<and> P * i + P \<le> int (length vs)
           \<and> P * (i + 1) + P \<le> int (length vs)"
      unfolding n c using a P by linarith
  qed
  have "P \<le> P * (S + 1)" using S P by (simp add: mult_le_cancel_left1)
  then have caps: "Tube_cap_faces (length vs + 2) sm P
      = Inr (concat (map (fan_pair (nat (P * (S + 1)) + 2) sm P) (xrange P)))"
    using Tube_cap_faces_Inr [of P "length vs + 2" sm] n len by simp
  have la: "length (vs @ cs) = length vs + 2" unfolding cs_def by simp
  have "Tube Ri Ro H Idv Odv Cdv S sm StartAngle EndAngle True =
     Inr \<lparr>verts = vs @ cs,
          faces = concat (map (\<lambda>i. map (quad sm P (P * i) (P * (i + 1))) (xrange P)) (xrange S))
                  @ concat (map (fan_pair (nat (P * (S + 1)) + 2) sm P) (xrange P))\<rparr>"
    unfolding Tube_def vert if_True fd ebind_Inr prod.case Let_def P_def [symmetric]
      vs_def [symmetric] cs_def [symmetric] la skin0 skin caps
    by (rule refl)
  then show ?thesis unfolding P_def vs_def cs_def .
qed


lemma Tube_cut_first_vertex:
  assumes "1 \<le> Idv" "1 \<le> Odv" "1 \<le> Cdv" "1 \<le> S"
  shows "first_vertex (Tube Ri Ro H Idv Odv Cdv S sm StartAngle EndAngle True)
           = Some (cos (deg2rad StartAngle) * Ri, sin (deg2rad StartAngle) * Ri, 0)"
proof -
  obtain vert where v: "MakeVertexRectange Ri Ro H Idv Odv Cdv = Inr ((Ri, 0, 0) # vert)"
    and l: "int (length ((Ri, 0, 0) # vert)) = 2 * Cdv + Idv + Odv"
    using MakeVertexRectange_shape [OF assms(1,3,2), of Ri Ro H] by blast
  obtain k where k: "nat (S + 1) = Suc k" using assms(4) by (cases "nat (S + 1)") auto
  show ?thesis
    unfolding Tube_cut_Inr [OF assms v l] first_vertex_def k
    by (simp add: AddYRotatedVertexes_def Let_def)
qed

section \<open>Order of the angle range\<close>

text \<open>
  \<^verbatim>\<open>Torus2\<close> and \<^verbatim>\<open>twist_mesh\<close> order their range with \<^verbatim>\<open>min\<close> and \<^verbatim>\<open>max\<close> first, so
  the result does not depend on the order in which the caller passes the two ends.
\<close>

lemma Torus2_range_symmetric:
  "Torus2 rot R r D M a CapStart b CapEnd ang sm = Torus2 rot R r D M b CapStart a CapEnd ang sm"
  by (simp add: Torus2_def min.commute max.commute)

lemma twist_mesh_range_symmetric:
  "twist_mesh bb vertex_list mesh_verts Axis Angle a b
     = twist_mesh bb vertex_list mesh_verts Axis Angle b a"
  by (simp add: twist_mesh_def min.commute max.commute)

text \<open>
  C8 (every angle range is ordered before use, so \<open>(a, b)\<close> and \<open>(b, a)\<close> give the same
  geometry): \<^verbatim>\<open>Tube\<close> does not order its range.  It starts at \<^verbatim>\<open>StartAngle\<close> and steps by
  \<^verbatim>\<open>float(EndAngle-StartAngle)/Segments\<close>, so with the ends swapped the sections come out in
  the opposite order: the first vertex of the cut tube with range (0, 90) is \<open>(1, 0, 0)\<close>,
  with range (90, 0) it is \<open>(0, 1, 0)\<close>, and the two meshes differ.
\<close>

theorem Tube_angle_order_not_normalized:
  "first_vertex (Tube 1 2 5 1 1 1 3 True 0 90 True) = Some (1, 0, 0) \<and>
   first_vertex (Tube 1 2 5 1 1 1 3 True 90 0 True) = Some (0, 1, 0) \<and>
   Tube 1 2 5 1 1 1 3 True 0 90 True \<noteq> Tube 1 2 5 1 1 1 3 True 90 0 True"
proof -
  have a: "first_vertex (Tube 1 2 5 1 1 1 3 True 0 90 True) = Some (1, 0, 0)"
    using Tube_cut_first_vertex [of 1 1 1 3 1 2 5 True 0 90] by (simp add: deg2rad_def)
  have b: "first_vertex (Tube 1 2 5 1 1 1 3 True 90 0 True) = Some (0, 1, 0)"
    using Tube_cut_first_vertex [of 1 1 1 3 1 2 5 True 90 0] by (simp add: deg2rad_def)
  from a b have "Tube 1 2 5 1 1 1 3 True 0 90 True \<noteq> Tube 1 2 5 1 1 1 3 True 90 0 True"
    by (metis option.inject prod.inject zero_neq_one)
  with a b show ?thesis by blast
qed

section \<open>Clipped sphere\<close>

lemma Sphere2_rang_formula:
  assumes "0 \<le> Clip" "Clip \<le> 100"
  shows "Sphere2_rang Clip = Inr (180 * arccos (1 - 2 * Clip / 100) / pi)"
  using assms by (simp add: Sphere2_rang_def acosE_def)

lemma Sphere2_rang_0: "Sphere2_rang 0 = Inr 0"
  by (simp add: Sphere2_rang_def acosE_def)

lemma Sphere2_rang_100: "Sphere2_rang 100 = Inr 180"
  by (simp add: Sphere2_rang_def acosE_def)

lemma Sphere2_angles_eq:
  "Sphere2_angles n angle da = map (\<lambda>k. angle - real k * da) [0..<n]"
proof (induction n arbitrary: angle)
  case 0
  show ?case by simp
next
  case (Suc n)
  have "[0..<Suc n] = 0 # map Suc [0..<n]"
    unfolding map_Suc_upt by (rule upt_conv_Cons) simp
  then show ?case
    by (simp only: Sphere2_angles.simps Suc.IH list.map map_map comp_def)
       (simp add: algebra_simps)
qed

lemma Sphere2_angles_range:
  assumes "0 \<le> rang" "1 \<le> V" "\<theta> \<in> set (Sphere2_angles (nat (V - 1)) rang (rang / real_of_int V))"
  shows "0 \<le> \<theta> \<and> \<theta> \<le> rang"
proof -
  from assms(3) obtain k where k: "k < nat (V - 1)" and t: "\<theta> = rang - real k * (rang / real_of_int V)"
    unfolding Sphere2_angles_eq by auto
  have V: "0 < real_of_int V" using assms(2) by simp
  have kV: "real k \<le> real_of_int V" using k by linarith
  define q where "q = real k / real_of_int V"
  have q: "0 \<le> q" "q \<le> 1" unfolding q_def using V kV by simp_all
  have e: "real k * (rang / real_of_int V) = rang * q" unfolding q_def by simp
  have "0 \<le> rang * q" using assms(1) q(1) by (rule mult_nonneg_nonneg)
  moreover have "rang * q \<le> rang * 1" using q(2) assms(1) by (rule mult_left_mono)
  ultimately have "0 \<le> real k * (rang / real_of_int V)" "real k * (rang / real_of_int V) \<le> rang"
    unfolding e by simp_all
  with t show ?thesis by simp
qed

lemma mapE_ex:
  "(\<And>x. x \<in> set xs \<Longrightarrow> \<exists>y. f x = Inr y) \<Longrightarrow> \<exists>ys. mapE f xs = Inr ys \<and> length ys = length xs"
proof (induction xs)
  case Nil
  show ?case by simp
next
  case (Cons x xs)
  then obtain y ys where "f x = Inr y" "mapE f xs = Inr ys" "length ys = length xs"
    by (metis list.set_intros)
  then show ?case by simp
qed


lemma length_Sphere2_angles [simp]: "length (Sphere2_angles n angle da) = n"
  by (simp add: Sphere2_angles_eq)

lemma Sphere2_Inr:
  assumes U: "1 \<le> U" and V: "2 \<le> V" and rang: "Sphere2_rang Clip = Inr rang"
  shows "\<exists>fs. Sphere2 R U V Clip cb csym sm =
     Inr \<lparr>verts = concat (map (\<lambda>angle. MakeVertexRing U (R * sin (angle / 180 * pi))
                                                         (R * cos (angle / 180 * pi)))
                              (Sphere2_angles (nat (V - 1)) rang (rang / real_of_int V)))
                    @ [(0, 0, R)]
                    @ (if cb \<and> csym then [(0, 0, R * cos (rang / 180 * pi))] else []),
          faces = fs\<rparr>"
proof -
  define vs where "vs = concat (map (\<lambda>angle. MakeVertexRing U (R * sin (angle / 180 * pi))
                                                         (R * cos (angle / 180 * pi)))
                              (Sphere2_angles (nat (V - 1)) rang (rang / real_of_int V)))"
  define vs1 where "vs1 = vs @ [(0, 0, R)]"
  define vs2 where "vs2 = vs1 @ [(0, 0, R * cos (rang / 180 * pi))]"
  have "length vs = nat (V - 1) * nat U"
    unfolding vs_def by (simp add: length_concat_const [where m = "nat U"])
  then have len: "length vs = nat (U * (V - 1))"
    using U V by (simp add: nat_mult_distrib mult.commute)
  have n: "int (length vs) = U * (V - 1)" using len U V by simp
  have n1: "int (length vs1) = U * (V - 1) + 1" unfolding vs1_def using n by simp
  have n2: "int (length vs2) = U * (V - 1) + 2" unfolding vs2_def using n1 by simp
  have UV: "U \<le> U * (V - 1)" using U V by (simp add: mult_le_cancel_left1)
  have fd: "fdiv rang (real_of_int V) = Inr (rang / real_of_int V)"
    using V by (simp add: fdiv_def)
  have skin: "concatE (\<lambda>i. quad_strip (length vs1) sm U (U * i) (U * (i + 1))) (xrange (V - 2))
      = Inr (concat (map (\<lambda>i. map (quad sm U (U * i) (U * (i + 1))) (xrange U)) (xrange (V - 2))))"
  proof (rule skin_Inr)
    fix i :: int assume i: "0 \<le> i" "i < V - 2"
    have a: "0 \<le> U * i" "U * i + U \<le> U * (V - 2)"
      using ring_bounds [OF i, of U] U by simp_all
    have b: "U * (V - 2) + U = U * (V - 1)" by (simp add: algebra_simps)
    have c: "U * (i + 1) = U * i + U" by (simp add: algebra_simps)
    show "0 \<le> U * i \<and> 0 \<le> U * (i + 1) \<and> U * i + U \<le> int (length vs1)
           \<and> U * (i + 1) + U \<le> int (length vs1)"
      unfolding n1 c using a b U by linarith
  qed
  obtain top where top: "Sphere2_top_faces (length vs1) sm U = Inr top"
  proof -
    have "\<exists>ys. mapE (\<lambda>k. let i = k; j = (k + 1) mod U in
             Face (length vs1) sm [-1, - (i + 2), - (j + 2)]) (xrange U) = Inr ys
            \<and> length ys = length (xrange U)"
    proof (rule mapE_ex)
      fix k assume "k \<in> set (xrange U)"
      then have k: "0 \<le> k" "k < U" by (auto simp: set_xrange)
      then have m: "0 \<le> (k + 1) mod U" "(k + 1) mod U < U" by simp_all
      have "Face (length vs1) sm [-1, - (k + 2), - ((k + 1) mod U + 2)]
          = Inr (tri sm (vpos (length vs1) (-1)) (vpos (length vs1) (- (k + 2)))
                        (vpos (length vs1) (- ((k + 1) mod U + 2))))"
        by (rule Face3_tri) (use n1 UV k m in linarith)+
      then show "\<exists>y. (let i = k; j = (k + 1) mod U in
             Face (length vs1) sm [-1, - (i + 2), - (j + 2)]) = Inr y"
        unfolding Let_def by blast
    qed
    then show ?thesis using that unfolding Sphere2_top_faces_def by blast
  qed
  obtain csy where csy: "mapE (\<lambda>i. Face (length vs2) sm [-1, i, (i + 1) mod U]) (xrange U) = Inr csy"
  proof -
    have "\<exists>ys. mapE (\<lambda>i. Face (length vs2) sm [-1, i, (i + 1) mod U]) (xrange U) = Inr ys
            \<and> length ys = length (xrange U)"
    proof (rule mapE_ex)
      fix k assume "k \<in> set (xrange U)"
      then have k: "0 \<le> k" "k < U" by (auto simp: set_xrange)
      then have m: "0 \<le> (k + 1) mod U" "(k + 1) mod U < U" by simp_all
      have "Face (length vs2) sm [-1, k, (k + 1) mod U]
          = Inr (tri sm (vpos (length vs2) (-1)) (vpos (length vs2) k)
                        (vpos (length vs2) ((k + 1) mod U)))"
        by (rule Face3_tri) (use n2 UV k m in linarith)+
      then show "\<exists>y. Face (length vs2) sm [-1, k, (k + 1) mod U] = Inr y" by blast
    qed
    then show ?thesis using that by blast
  qed
  obtain csi where csi: "mapE (\<lambda>i. Face (length vs1) sm [0, i + 1, i + 2]) (xrange (U - 2)) = Inr csi"
  proof -
    have "\<exists>ys. mapE (\<lambda>i. Face (length vs1) sm [0, i + 1, i + 2]) (xrange (U - 2)) = Inr ys
            \<and> length ys = length (xrange (U - 2))"
    proof (rule mapE_ex)
      fix k assume "k \<in> set (xrange (U - 2))"
      then have k: "0 \<le> k" "k < U - 2" by (auto simp: set_xrange)
      have "Face (length vs1) sm [0, k + 1, k + 2]
          = Inr (tri sm (vpos (length vs1) 0) (vpos (length vs1) (k + 1))
                        (vpos (length vs1) (k + 2)))"
        by (rule Face3_tri) (use n1 UV k in linarith)+
      then show "\<exists>y. Face (length vs1) sm [0, k + 1, k + 2] = Inr y" by blast
    qed
    then show ?thesis using that by blast
  qed
  have "\<exists>fs. Sphere2 R U V Clip cb csym sm =
     Inr \<lparr>verts = vs @ [(0, 0, R)] @ (if cb \<and> csym then [(0, 0, R * cos (rang / 180 * pi))] else []),
          faces = fs\<rparr>"
    unfolding Sphere2_def rang ebind_Inr Let_def fd vs_def [symmetric] vs1_def [symmetric]
      vs2_def [symmetric] skin top csy csi
    by (cases cb; cases csym) (simp_all add: vs1_def vs2_def)
  then show ?thesis unfolding vs_def .
qed


text \<open>
  C4 (clip-percent 0 keeps the full sphere, 100 keeps nothing): the direction is the other
  way round.  With \<^verbatim>\<open>Clip = 0\<close> the clip latitude is 0 degrees and every vertex of the
  mesh lies on the pole \<open>(0, 0, Radius)\<close>; with \<^verbatim>\<open>Clip = 100\<close> it is 180 degrees and the
  first ring is emitted at the opposite pole \<open>(0, 0, -Radius)\<close>.
\<close>

theorem Sphere2_clip_direction_counterexample:
  "Sphere2_rang 0 = Inr 0 \<and>
   vertex_set (Sphere2 1 3 3 0 False False True) = Some {(0, 0, 1)} \<and>
   Sphere2_rang 100 = Inr 180 \<and>
   first_vertex (Sphere2 1 3 3 100 False False True) = Some (0, 0, -1)"
proof -
  have two: "nat (3 - 1) = Suc (Suc 0)" by simp
  have three: "[0..<3] = [0, Suc 0, Suc (Suc 0)]" by (simp add: upt_rec)
  obtain fs where "Sphere2 1 3 3 0 False False True =
     Inr \<lparr>verts = concat (map (\<lambda>angle. MakeVertexRing 3 (1 * sin (angle / 180 * pi))
                                                         (1 * cos (angle / 180 * pi)))
                              (Sphere2_angles (nat (3 - 1)) 0 (0 / real_of_int 3)))
                    @ [(0, 0, 1)]
                    @ (if False \<and> False then [(0, 0, 1 * cos (0 / 180 * pi))] else []),
          faces = fs\<rparr>"
    using Sphere2_Inr [of 3 3 0 0 1 False False True] Sphere2_rang_0 by auto
  then have a: "vertex_set (Sphere2 1 3 3 0 False False True) = Some {(0, 0, 1)}"
    unfolding two by (auto simp: vertex_set_def MakeVertexRing_def xrange_def three)
  obtain gs where "Sphere2 1 3 3 100 False False True =
     Inr \<lparr>verts = concat (map (\<lambda>angle. MakeVertexRing 3 (1 * sin (angle / 180 * pi))
                                                         (1 * cos (angle / 180 * pi)))
                              (Sphere2_angles (nat (3 - 1)) 180 (180 / real_of_int 3)))
                    @ [(0, 0, 1)]
                    @ (if False \<and> False then [(0, 0, 1 * cos (180 / 180 * pi))] else []),
          faces = gs\<rparr>"
    using Sphere2_Inr [of 3 3 100 180 1 False False True] Sphere2_rang_100 by auto
  then have b: "first_vertex (Sphere2 1 3 3 100 False False True) = Some (0, 0, -1)"
    unfolding two by (simp add: first_vertex_def MakeVertexRing_def xrange_def three)
  from a b Sphere2_rang_0 Sphere2_rang_100 show ?thesis by blast
qed

text \<open>
  C4, amended: for a clip-percent in \<open>[0, 100]\<close> the clip latitude, as a polar angle in
  degrees, is \<open>rang = 180 \<times> acos(1 - 2 \<times> Clip / 100) / \<pi>\<close>, between 0 and 180; it is 0 for
  \<^verbatim>\<open>Clip = 0\<close> (nothing is kept) and 180 for \<^verbatim>\<open>Clip = 100\<close> (the full sphere), and the
  lowest height kept is \<open>Radius \<times> (1 - 2 \<times> Clip / 100)\<close>.  The build emits \<open>V - 1\<close> rings
  at the polar angles \<open>rang - k \<times> rang / V\<close>, \<open>k = 0, ..., V - 2\<close>, all between the pole
  (angle 0) and the clip latitude, and then the pole vertex.
\<close>

theorem Sphere2_clip_latitude:
  assumes "0 \<le> Clip" "Clip \<le> 100" "3 \<le> U" "3 \<le> V"
  shows "\<exists>rang m. Sphere2_rang Clip = Inr rang
     \<and> rang = 180 * arccos (1 - 2 * Clip / 100) / pi
     \<and> 0 \<le> rang \<and> rang \<le> 180
     \<and> (Clip = 0 \<longrightarrow> rang = 0) \<and> (Clip = 100 \<longrightarrow> rang = 180)
     \<and> R * cos (rang / 180 * pi) = R * (1 - 2 * Clip / 100)
     \<and> Sphere2 R U V Clip cb csym sm = Inr m
     \<and> take (nat (U * (V - 1))) (verts m)
         = concat (map (\<lambda>angle. MakeVertexRing U (R * sin (angle / 180 * pi))
                                                 (R * cos (angle / 180 * pi)))
                       (Sphere2_angles (nat (V - 1)) rang (rang / real_of_int V)))
     \<and> verts m ! nat (U * (V - 1)) = (0, 0, R)
     \<and> Sphere2_angles (nat (V - 1)) rang (rang / real_of_int V)
         = map (\<lambda>k. rang - real k * (rang / real_of_int V)) [0..<nat (V - 1)]
     \<and> (\<forall>\<theta> \<in> set (Sphere2_angles (nat (V - 1)) rang (rang / real_of_int V)).
           0 \<le> \<theta> \<and> \<theta> \<le> rang)"
proof -
  define x where "x = 1 - 2 * Clip / 100"
  define rang where "rang = 180 * arccos x / pi"
  define vs where "vs = concat (map (\<lambda>angle. MakeVertexRing U (R * sin (angle / 180 * pi))
                                                 (R * cos (angle / 180 * pi)))
                       (Sphere2_angles (nat (V - 1)) rang (rang / real_of_int V)))"
  have x: "-1 \<le> x" "x \<le> 1" unfolding x_def using assms(1,2) by simp_all
  have r: "Sphere2_rang Clip = Inr rang"
    unfolding rang_def x_def using Sphere2_rang_formula [OF assms(1,2)] .
  have a0: "0 \<le> arccos x" and a1: "arccos x \<le> pi"
    using x by (simp_all add: arccos_lbound arccos_ubound)
  have r0: "0 \<le> rang" unfolding rang_def using a0 by simp
  have r1: "rang \<le> 180" unfolding rang_def using a1 by (simp add: pos_divide_le_eq)
  have c0: "Clip = 0 \<longrightarrow> rang = 0" unfolding rang_def x_def by simp
  have c1: "Clip = 100 \<longrightarrow> rang = 180" unfolding rang_def x_def by simp
  have "rang / 180 * pi = arccos x" unfolding rang_def by simp
  then have z: "R * cos (rang / 180 * pi) = R * (1 - 2 * Clip / 100)"
    using x by (simp add: cos_arccos x_def)
  from assms have U: "1 \<le> U" and V: "2 \<le> V" and V1: "1 \<le> V" by simp_all
  obtain fs where "Sphere2 R U V Clip cb csym sm =
     Inr \<lparr>verts = vs @ [(0, 0, R)] @ (if cb \<and> csym then [(0, 0, R * cos (rang / 180 * pi))] else []),
          faces = fs\<rparr>"
    using Sphere2_Inr [OF U V r, of R cb csym sm] unfolding vs_def by blast
  then obtain m where m: "Sphere2 R U V Clip cb csym sm = Inr m"
    and vm: "verts m = vs @ [(0, 0, R)]
               @ (if cb \<and> csym then [(0, 0, R * cos (rang / 180 * pi))] else [])"
    by simp
  have "length vs = nat (V - 1) * nat U"
    unfolding vs_def by (simp add: length_concat_const [where m = "nat U"])
  then have len: "length vs = nat (U * (V - 1))"
    using U V by (simp add: nat_mult_distrib mult.commute)
  have tk: "take (nat (U * (V - 1))) (verts m) = vs"
    unfolding vm len [symmetric] by simp
  have pole: "verts m ! nat (U * (V - 1)) = (0, 0, R)"
    unfolding vm len [symmetric] by (simp add: nth_append)
  have rng: "\<forall>\<theta> \<in> set (Sphere2_angles (nat (V - 1)) rang (rang / real_of_int V)).
           0 \<le> \<theta> \<and> \<theta> \<le> rang"
    using Sphere2_angles_range [OF r0 V1] by blast
  have f: "rang = 180 * arccos (1 - 2 * Clip / 100) / pi" unfolding rang_def x_def ..
  note eq = Sphere2_angles_eq [of "nat (V - 1)" rang "rang / real_of_int V"]
  show ?thesis
    by (intro exI [of _ rang] exI [of _ m] conjI)
       (fact r f r0 r1 c0 c1 z m tk [unfolded vs_def] pole eq rng)+
qed

theorem Sphere2_clip_latitude_witness:
  "(0::real) \<le> 50 \<and> (50::real) \<le> 100 \<and> (3::int) \<le> 4 \<and> (3::int) \<le> 3 \<and>
   (\<exists>rang m. Sphere2_rang 50 = Inr rang \<and> rang = 90
     \<and> Sphere2 1 4 3 50 True False True = Inr m
     \<and> verts m ! 8 = (0, 0, 1)
     \<and> Sphere2_angles 2 rang (rang / 3) = [90, 60])"
proof -
  have two: "[0..<2] = [0, Suc 0]" by (simp add: upt_rec)
  show ?thesis
    using Sphere2_clip_latitude [of 50 4 3 1 True False True]
    by (auto simp: two)
qed

section \<open>Parameter validation\<close>

lemma length_Disc_ring [simp]: "length (Disc_ring n r alpha da) = n"
  by (induction n arbitrary: alpha) simp_all

lemma Disc_Inr:
  assumes S: "1 \<le> S" and D: "1 \<le> D"
  shows "\<exists>vs. length vs = nat (S * (D + 1)) \<and>
     Disc Ri Ro S D =
       Inr \<lparr>verts = vs,
            faces = concat (map (\<lambda>i. map (quad False S (S * i) (S * (i + 1))) (xrange S))
                             (xrange D))\<rparr>"
proof -
  define dr where "dr = (Ro - Ri) / real_of_int D"
  define da where "da = pi * 2 / real_of_int S"
  define vs where "vs = ring_loop (nat (D + 1)) (\<lambda>r. Disc_ring (nat S) r 0 da) Ri dr"
  have "length vs = nat (D + 1) * nat S"
    unfolding vs_def by (simp add: length_ring_loop [where m = "nat S"])
  then have len: "length vs = nat (S * (D + 1))"
    using S D by (simp add: nat_mult_distrib mult.commute)
  have n: "int (length vs) = S * (D + 1)" using len S D by simp
  have fd: "fdiv (Ro - Ri) (real_of_int D) = Inr dr" "fdiv (pi * 2) (real_of_int S) = Inr da"
    using S D by (simp_all add: fdiv_def dr_def da_def)
  have skin: "concatE (\<lambda>i. quad_strip (length vs) False S (S * i) (S * (i + 1))) (xrange D)
      = Inr (concat (map (\<lambda>i. map (quad False S (S * i) (S * (i + 1))) (xrange S)) (xrange D)))"
  proof (rule skin_Inr)
    fix i :: int assume i: "0 \<le> i" "i < D"
    have a: "0 \<le> S * i" "S * i + S \<le> S * D"
      using ring_bounds [OF i, of S] S by simp_all
    have c: "S * (i + 1) = S * i + S" "S * (D + 1) = S * D + S" by (simp_all add: algebra_simps)
    show "0 \<le> S * i \<and> 0 \<le> S * (i + 1) \<and> S * i + S \<le> int (length vs)
           \<and> S * (i + 1) + S \<le> int (length vs)"
      unfolding n c using a S by linarith
  qed
  have "Disc Ri Ro S D =
       Inr \<lparr>verts = vs,
            faces = concat (map (\<lambda>i. map (quad False S (S * i) (S * (i + 1))) (xrange S))
                             (xrange D))\<rparr>"
    unfolding Disc_def fd ebind_Inr Let_def vs_def [symmetric] skin by (rule refl)
  with len show ?thesis by blast
qed

lemma Tube_full_Inr:
  assumes I: "1 \<le> Idv" and O: "1 \<le> Odv" and C: "1 \<le> Cdv" and S: "1 \<le> S"
    and vert: "MakeVertexRectange Ri Ro H Idv Odv Cdv = Inr vert"
    and vps: "int (length vert) = 2 * Cdv + Idv + Odv"
  shows "Tube Ri Ro H Idv Odv Cdv S sm StartAngle EndAngle False =
     Inr \<lparr>verts = ring_loop (nat S) (AddYRotatedVertexes vert) (deg2rad 0)
                      (deg2rad (360 / real_of_int S)),
          faces = concat (map (\<lambda>i. map (quad sm (2 * Cdv + Idv + Odv) ((2 * Cdv + Idv + Odv) * i)
                                             ((2 * Cdv + Idv + Odv) * ((i + 1) mod S)))
                                      (xrange (2 * Cdv + Idv + Odv)))
                              (xrange S))\<rparr>"
proof -
  define P where "P = 2 * Cdv + Idv + Odv"
  define vs where "vs = ring_loop (nat S) (AddYRotatedVertexes vert) (deg2rad 0)
                      (deg2rad (360 / real_of_int S))"
  have P: "1 \<le> P" using I O C unfolding P_def by simp
  have lvert: "length vert = nat P" using vps unfolding P_def by simp
  have len: "length vs = nat S * nat P"
    unfolding vs_def by (simp add: length_ring_loop [where m = "nat P"] lvert)
  have n: "int (length vs) = P * S" using len S P by (simp add: mult.commute)
  have fd: "fdiv 360 (real_of_int S) = Inr (360 / real_of_int S)"
    using S by (simp add: fdiv_def)
  have skin: "concatE (\<lambda>i. quad_strip (length vs) sm P (P * i) (P * ((i + 1) mod S))) (xrange S)
      = Inr (concat (map (\<lambda>i. map (quad sm P (P * i) (P * ((i + 1) mod S))) (xrange P)) (xrange S)))"
  proof (rule skin_Inr)
    fix i :: int assume i: "0 \<le> i" "i < S"
    have m: "0 \<le> (i + 1) mod S" "(i + 1) mod S < S" using S by simp_all
    have a: "0 \<le> P * i" "P * i + P \<le> P * S"
      using ring_bounds [OF i, of P] P by simp_all
    have b: "0 \<le> P * ((i + 1) mod S)" "P * ((i + 1) mod S) + P \<le> P * S"
      using ring_bounds [OF m, of P] P by simp_all
    show "0 \<le> P * i \<and> 0 \<le> P * ((i + 1) mod S) \<and> P * i + P \<le> int (length vs)
           \<and> P * ((i + 1) mod S) + P \<le> int (length vs)"
      unfolding n using a b by linarith
  qed
  have "Tube Ri Ro H Idv Odv Cdv S sm StartAngle EndAngle False =
     Inr \<lparr>verts = vs,
          faces = concat (map (\<lambda>i. map (quad sm P (P * i) (P * ((i + 1) mod S))) (xrange P))
                              (xrange S))\<rparr>"
    unfolding Tube_def vert if_False fd ebind_Inr prod.case Let_def P_def [symmetric]
      vs_def [symmetric] skin
    by (rule refl)
  then show ?thesis unfolding P_def vs_def .
qed

lemma Tube_returns:
  assumes "1 \<le> Idv" "1 \<le> Odv" "1 \<le> Cdv" "1 \<le> S"
  shows "\<exists>m. Tube Ri Ro H Idv Odv Cdv S sm StartAngle EndAngle UseAngles = Inr m"
proof -
  obtain vert where v: "MakeVertexRectange Ri Ro H Idv Odv Cdv = Inr ((Ri, 0, 0) # vert)"
    and l: "int (length ((Ri, 0, 0) # vert)) = 2 * Cdv + Idv + Odv"
    using MakeVertexRectange_shape [OF assms(1,3,2), of Ri Ro H] by blast
  show ?thesis
  proof (cases UseAngles)
    case True
    then show ?thesis using Tube_cut_Inr [OF assms v l, of sm StartAngle EndAngle] by simp
  next
    case False
    then show ?thesis using Tube_full_Inr [OF assms v l, of sm StartAngle EndAngle] by simp
  qed
qed

lemma zero_count_raises:
  "Cylinder R H S D 0 sm = Inl ZeroDivisionError"
  "Cylinder R H S 0 Cdv sm = Inl ZeroDivisionError"
  "Disc Ri Ro S 0 = Inl ZeroDivisionError"
  "Disc Ri Ro 0 D = Inl ZeroDivisionError"
  "Sphere R S 0 sm = Inl ZeroDivisionError"
  "Torus rot R r 0 S a sm = Inl ZeroDivisionError"
  "Torus2 rot R r 0 S s0 cs e0 ce a sm = Inl ZeroDivisionError"
  by (simp_all add: Cylinder_def Disc_def Sphere_def Torus_def Torus2_def fdiv_def Let_def)

lemma Tube_zero_count_raises:
  "Tube Ri Ro H 0 Odv Cdv S sm s0 e0 ua = Inl ZeroDivisionError"
  "Tube Ri Ro H Idv 0 Cdv S sm s0 e0 ua = Inl ZeroDivisionError"
  "Tube Ri Ro H Idv Odv 0 S sm s0 e0 ua = Inl ZeroDivisionError"
  "Tube Ri Ro H Idv Odv Cdv 0 sm s0 e0 ua = Inl ZeroDivisionError"
  by (simp_all add: Tube_def MakeVertexRectange_def fdiv_def Let_def)

lemma Sphere2_zero_count_raises:
  "0 \<le> Clip \<Longrightarrow> Clip \<le> 100 \<Longrightarrow> Sphere2 R S 0 Clip cb csym sm = Inl ZeroDivisionError"
  by (simp add: Sphere2_def Sphere2_rang_formula fdiv_def Let_def)


text \<open>
  C1 (a segment count below 3 or a radius \<open>\<le> 0\<close> makes every builder fail before anything
  is emitted): no builder checks its parameters.  The cylinder with 2 segments is built,
  with 8 vertices and 8 faces, and so is the cylinder of radius \<open>-1\<close>.
\<close>

theorem builders_accept_small_counts_counterexample:
  "vertex_count (Cylinder 1 3 2 1 1 True) = Some 8 \<and>
   face_count (Cylinder 1 3 2 1 1 True) = Some 8 \<and>
   vertex_count (Cylinder (-1) 3 3 1 1 True) = Some 11 \<and>
   face_count (Cylinder (-1) 3 3 1 1 True) = Some 12"
proof -
  obtain vs where "length vs = nat (2 * (2 * 1 + 1))"
    and "Cylinder 1 3 2 1 1 True =
        Inr \<lparr>verts = vs @ [(0, 0, 0), (0, 0, 3)],
             faces = concat (map (\<lambda>i. map (quad True 2 (2 * i) (2 * (i + 1))) (xrange 2))
                              (xrange (2 * 1 + 1 - 1)))
                     @ concat (map (fan_pair (nat (2 * (2 * 1 + 1)) + 2) True 2) (xrange 2))\<rparr>"
    using Cylinder_Inr [of 2 1 1 1 3 True] by auto
  then have a: "vertex_count (Cylinder 1 3 2 1 1 True) = Some 8"
    "face_count (Cylinder 1 3 2 1 1 True) = Some 8"
    by (simp_all add: vertex_count_def face_count_def length_quads length_fan_pairs)
  obtain ws where "length ws = nat (3 * (2 * 1 + 1))"
    and "Cylinder (-1) 3 3 1 1 True =
        Inr \<lparr>verts = ws @ [(0, 0, 0), (0, 0, 3)],
             faces = concat (map (\<lambda>i. map (quad True 3 (3 * i) (3 * (i + 1))) (xrange 3))
                              (xrange (2 * 1 + 1 - 1)))
                     @ concat (map (fan_pair (nat (3 * (2 * 1 + 1)) + 2) True 3) (xrange 3))\<rparr>"
    using Cylinder_Inr [of 3 1 1 "-1" 3 True] by auto
  then have b: "vertex_count (Cylinder (-1) 3 3 1 1 True) = Some 11"
    "face_count (Cylinder (-1) 3 3 1 1 True) = Some 12"
    by (simp_all add: vertex_count_def face_count_def length_quads length_fan_pairs)
  from a b show ?thesis by blast
qed

text \<open>
  C1, amended: the builders do not validate their parameters.  A build whose counts are
  all at least 1 (at least 2 for the V-divisions of the spheres, and a clip-percent within
  \<open>[0, 100]\<close> for the clipped sphere) returns a mesh, whatever the radii and also for segment
  counts 1 and 2.  A build fails, with \<^verbatim>\<open>ZeroDivisionError\<close> and without handing any vertex
  or face to the host, when a count it divides by is zero: cap or outer divisions of the
  cylinder, subdivisions or segments of the disc, V-divisions of the spheres, major
  divisions of the tori, inner, outer or cap divisions or segments of the tube.
\<close>

theorem builders_do_not_validate:
  assumes "1 \<le> S" "1 \<le> D" "1 \<le> Cdv" "1 \<le> Idv" "2 \<le> V" "0 \<le> Clip" "Clip \<le> 100"
  shows "(\<exists>m. Cylinder R H S D Cdv sm = Inr m)
     \<and> (\<exists>m. Disc Ri Ro S D = Inr m)
     \<and> (\<exists>m. Sphere R S V sm = Inr m)
     \<and> (\<exists>m. Sphere2 R S V Clip cb csym sm = Inr m)
     \<and> (\<exists>m. Torus rot R r D S a sm = Inr m)
     \<and> (\<exists>m. Torus2 rot R r D S s0 cs e0 ce a sm = Inr m)
     \<and> (\<exists>m. Tube Ri Ro H Idv D Cdv S sm s0 e0 ua = Inr m)
     \<and> Cylinder R H S D 0 sm = Inl ZeroDivisionError
     \<and> Cylinder R H S 0 Cdv sm = Inl ZeroDivisionError
     \<and> Disc Ri Ro S 0 = Inl ZeroDivisionError
     \<and> Disc Ri Ro 0 D = Inl ZeroDivisionError
     \<and> Sphere R S 0 sm = Inl ZeroDivisionError
     \<and> Sphere2 R S 0 Clip cb csym sm = Inl ZeroDivisionError
     \<and> Torus rot R r 0 S a sm = Inl ZeroDivisionError
     \<and> Torus2 rot R r 0 S s0 cs e0 ce a sm = Inl ZeroDivisionError
     \<and> Tube Ri Ro H 0 D Cdv S sm s0 e0 ua = Inl ZeroDivisionError
     \<and> Tube Ri Ro H Idv 0 Cdv S sm s0 e0 ua = Inl ZeroDivisionError
     \<and> Tube Ri Ro H Idv D 0 S sm s0 e0 ua = Inl ZeroDivisionError
     \<and> Tube Ri Ro H Idv D Cdv 0 sm s0 e0 ua = Inl ZeroDivisionError"
proof -
  have 1: "\<exists>m. Cylinder R H S D Cdv sm = Inr m"
    using Cylinder_Inr [OF assms(1,2,3), of R H sm] by blast
  have 2: "\<exists>m. Disc Ri Ro S D = Inr m"
    using Disc_Inr [OF assms(1,2), of Ri Ro] by blast
  have 3: "\<exists>m. Sphere R S V sm = Inr m"
    using Sphere_Inr [OF assms(1,5), of R sm] by blast
  have 4: "\<exists>m. Sphere2 R S V Clip cb csym sm = Inr m"
    using Sphere2_Inr [OF assms(1,5) Sphere2_rang_formula [OF assms(6,7)], of R cb csym sm]
    by blast
  have 5: "\<exists>m. Torus rot R r D S a sm = Inr m"
    using Torus_Inr [OF assms(2,1), of rot R r a sm] by blast
  have 6: "\<exists>m. Torus2 rot R r D S s0 cs e0 ce a sm = Inr m"
    using Torus2_Inr [OF assms(2,1), of rot R r s0 cs e0 ce a sm] by blast
  have 7: "\<exists>m. Tube Ri Ro H Idv D Cdv S sm s0 e0 ua = Inr m"
    by (rule Tube_returns [OF assms(4,2,3,1)])
  show ?thesis
    by (intro conjI 1 2 3 4 5 6 7 zero_count_raises Tube_zero_count_raises
          Sphere2_zero_count_raises [OF assms(6,7)])
qed

theorem builders_do_not_validate_witness:
  "(1::int) \<le> 2 \<and> (1::int) \<le> 1 \<and> (2::int) \<le> 2 \<and> (0::real) \<le> 50 \<and> (50::real) \<le> 100
   \<and> (\<exists>m. Cylinder (-1) 3 2 1 1 True = Inr m)
   \<and> (\<exists>m. Disc (1/2) 1 2 1 = Inr m)
   \<and> (\<exists>m. Sphere (-1) 2 2 True = Inr m)
   \<and> (\<exists>m. Sphere2 (-1) 2 2 50 True False True = Inr m)
   \<and> (\<exists>m. Torus (\<lambda>angle p. p) (-1) (1/4) 1 2 0 True = Inr m)
   \<and> (\<exists>m. Torus2 (\<lambda>angle p. p) (-1) (1/4) 1 2 0 True 90 True 0 True = Inr m)
   \<and> (\<exists>m. Tube (1/2) 1 3 1 1 1 2 True 0 90 True = Inr m)
   \<and> Cylinder (-1) 3 2 1 0 True = Inl ZeroDivisionError
   \<and> Sphere (-1) 2 0 True = Inl ZeroDivisionError
   \<and> Tube (1/2) 1 3 1 1 1 0 True 0 90 True = Inl ZeroDivisionError"
  using builders_do_not_validate [where S = 2 and D = 1 and Cdv = 1 and Idv = 1 and V = 2
      and Clip = 50 and R = "-1" and H = 3 and sm = True and Ri = "1/2" and Ro = 1
      and cb = True and csym = False and rot = "\<lambda>angle p. p" and r = "1/4" and a = 0
      and ?s0.0 = 0 and cs = True and ?e0.0 = 90 and ce = True and ua = True]
  by simp

end
